theory Spec2Isabelle
  imports Complex_Main "HOL-Library.Word"
begin

section \<open>PASCO1 token engine (src/lib/crypto.ts) and its lockout policy (src/pages/CryptoLab.tsx)\<close>

subsection \<open>Strings, bytes and JSON values\<close>

text \<open>
  A JavaScript string is a sequence of 16-bit code units, a \<open>Uint8Array\<close> a sequence of
  bytes. \<open>js\<close> writes an ASCII literal of the source as code units.
\<close>

type_synonym byte = "8 word"
type_synonym bytes = "byte list"
type_synonym code_unit = "16 word"
type_synonym jsstring = "code_unit list"

definition js :: "string \<Rightarrow> jsstring" where
  "js s = map (\<lambda>c. of_nat (of_char c)) s"

text \<open>
  A JavaScript number: a finite value, an infinity or \<open>NaN\<close>. Every finite double is a
  rational; \<open>-0\<close> is not told apart from \<open>0\<close>. \<open>Math.min\<close> and \<open>Math.max\<close> return one of
  their arguments, or \<open>NaN\<close> as soon as an argument is \<open>NaN\<close>.
\<close>

datatype number = Finite rat | PosInfinity | NegInfinity | NaN

fun numberLe :: "number \<Rightarrow> number \<Rightarrow> bool" where
  "numberLe NaN y = False"
| "numberLe x NaN = False"
| "numberLe NegInfinity y = True"
| "numberLe x PosInfinity = True"
| "numberLe (Finite x) (Finite y) = (x \<le> y)"
| "numberLe x y = False"

definition mathMin :: "number \<Rightarrow> number \<Rightarrow> number" where
  "mathMin x y = (if x = NaN \<or> y = NaN then NaN else if numberLe x y then x else y)"

definition mathMax :: "number \<Rightarrow> number \<Rightarrow> number" where
  "mathMax x y = (if x = NaN \<or> y = NaN then NaN else if numberLe x y then y else x)"

text \<open>
  The value \<open>JSON.parse\<close> returns. An object is its list of properties; a property that
  is \<open>undefined\<close> is absent.
\<close>

datatype json =
    JNull
  | JBool bool
  | JNum number
  | JStr jsstring
  | JArr "json list"
  | JObj "(jsstring \<times> json) list"

text \<open>Reading a property \<open>x.k\<close> of a non-null value; \<open>None\<close> is \<open>undefined\<close>.\<close>

fun getProp :: "json \<Rightarrow> jsstring \<Rightarrow> json option" where
  "getProp (JObj kvs) k = map_of kvs k"
| "getProp _ k = None"

subsection \<open>String built-ins used by the source\<close>

text \<open>\<open>String.prototype.trim\<close>: strips WhiteSpace and LineTerminator code units at both ends.\<close>

definition isWhiteSpace :: "code_unit \<Rightarrow> bool" where
  "isWhiteSpace c \<longleftrightarrow>
     c = 0x9 \<or> c = 0xA \<or> c = 0xB \<or> c = 0xC \<or> c = 0xD \<or> c = 0x20 \<or> c = 0xA0 \<or>
     c = 0x1680 \<or> (0x2000 \<le> c \<and> c \<le> 0x200A) \<or> c = 0x2028 \<or> c = 0x2029 \<or>
     c = 0x202F \<or> c = 0x205F \<or> c = 0x3000 \<or> c = 0xFEFF"

definition trim :: "jsstring \<Rightarrow> jsstring" where
  "trim s = rev (dropWhile isWhiteSpace (rev (dropWhile isWhiteSpace s)))"

definition startsWith :: "jsstring \<Rightarrow> jsstring \<Rightarrow> bool" where
  "startsWith s p \<longleftrightarrow> take (length p) s = p"

text \<open>\<open>s.split(".")\<close>: the pieces between the separators; never the empty list.\<close>

fun split :: "code_unit \<Rightarrow> jsstring \<Rightarrow> jsstring list" where
  "split d [] = [[]]"
| "split d (c # cs) =
     (if c = d then [] # split d cs
      else (case split d cs of [] \<Rightarrow> [[c]] | p # ps \<Rightarrow> (c # p) # ps))"

definition dot :: code_unit where
  "dot = 0x2E"

subsection \<open>TextEncoder and TextDecoder\<close>

text \<open>
  \<open>new TextEncoder().encode(s)\<close> reads the string as Unicode scalar values, an unpaired
  surrogate becoming U+FFFD, and writes each in UTF-8.
\<close>

definition isLeadSurrogate :: "code_unit \<Rightarrow> bool" where
  "isLeadSurrogate c \<longleftrightarrow> 0xD800 \<le> c \<and> c < 0xDC00"

definition isTrailSurrogate :: "code_unit \<Rightarrow> bool" where
  "isTrailSurrogate c \<longleftrightarrow> 0xDC00 \<le> c \<and> c < 0xE000"

fun scalarValues :: "jsstring \<Rightarrow> int list" where
  "scalarValues [] = []"
| "scalarValues [c] = [if isLeadSurrogate c \<or> isTrailSurrogate c then 0xFFFD else uint c]"
| "scalarValues (c # d # cs) =
     (if isLeadSurrogate c \<and> isTrailSurrogate d
      then (0x10000 + (uint c - 0xD800) * 0x400 + (uint d - 0xDC00)) # scalarValues cs
      else (if isLeadSurrogate c \<or> isTrailSurrogate c then 0xFFFD else uint c)
           # scalarValues (d # cs))"

definition utf8Bytes :: "int \<Rightarrow> int list" where
  "utf8Bytes cp =
     (if cp < 0x80 then [cp]
      else if cp < 0x800 then [0xC0 + cp div 0x40, 0x80 + cp mod 0x40]
      else if cp < 0x10000 then [0xE0 + cp div 0x1000, 0x80 + cp div 0x40 mod 0x40, 0x80 + cp mod 0x40]
      else [0xF0 + cp div 0x40000, 0x80 + cp div 0x1000 mod 0x40, 0x80 + cp div 0x40 mod 0x40,
            0x80 + cp mod 0x40])"

definition textEncoderEncode :: "jsstring \<Rightarrow> bytes" where
  "textEncoderEncode s = map word_of_int (concat (map utf8Bytes (scalarValues s)))"

text \<open>
  \<open>new TextDecoder().decode(bytes)\<close> is the UTF-8 decoder of the Encoding Standard with
  replacement: the state is the code point so far, the number of continuation bytes still
  needed and the bounds of the next byte; a byte outside the bounds ends the sequence with
  U+FFFD and is then read again as the first byte of a sequence. The decoder is created
  with the default options, so a leading U+FEFF of the output is dropped, and the scalar
  values are returned as UTF-16 code units.
\<close>

type_synonym utf8State = "int \<times> nat \<times> int \<times> int"

definition utf8Idle :: utf8State where
  "utf8Idle = (0, 0, 0x80, 0xBF)"

definition utf8Step :: "utf8State \<Rightarrow> int \<Rightarrow> int list \<times> utf8State" where
  "utf8Step st b = (case st of (cp, needed, lower, upper) \<Rightarrow>
     if needed \<noteq> 0 \<and> lower \<le> b \<and> b \<le> upper then
       (if needed = 1 then ([cp * 0x40 + b mod 0x40], utf8Idle)
        else ([], (cp * 0x40 + b mod 0x40, needed - 1, 0x80, 0xBF)))
     else let err = (if needed \<noteq> 0 then [0xFFFD] else []) in
       if b \<le> 0x7F then (err @ [b], utf8Idle)
       else if 0xC2 \<le> b \<and> b \<le> 0xDF then (err, (b mod 0x20, 1, 0x80, 0xBF))
       else if 0xE0 \<le> b \<and> b \<le> 0xEF then
         (err, (b mod 0x10, 2, if b = 0xE0 then 0xA0 else 0x80, if b = 0xED then 0x9F else 0xBF))
       else if 0xF0 \<le> b \<and> b \<le> 0xF4 then
         (err, (b mod 0x8, 3, if b = 0xF0 then 0x90 else 0x80, if b = 0xF4 then 0x8F else 0xBF))
       else (err @ [0xFFFD], utf8Idle))"

fun utf8Decoder :: "utf8State \<Rightarrow> int list \<Rightarrow> int list" where
  "utf8Decoder st [] = (if fst (snd st) \<noteq> 0 then [0xFFFD] else [])"
| "utf8Decoder st (b # bs) = (case utf8Step st b of (out, st') \<Rightarrow> out @ utf8Decoder st' bs)"

definition utf16Units :: "int \<Rightarrow> jsstring" where
  "utf16Units cp =
     (if cp < 0x10000 then [word_of_int cp]
      else [word_of_int (0xD800 + (cp - 0x10000) div 0x400),
            word_of_int (0xDC00 + (cp - 0x10000) mod 0x400)])"

definition dropBOM :: "int list \<Rightarrow> int list" where
  "dropBOM cps = (case cps of [] \<Rightarrow> [] | cp # rest \<Rightarrow> if cp = 0xFEFF then rest else cps)"

definition textDecoderDecode :: "bytes \<Rightarrow> jsstring" where
  "textDecoderDecode bs = concat (map utf16Units (dropBOM (utf8Decoder utf8Idle (map uint bs))))"

subsection \<open>Base64 (btoa, atob) and the URL-safe variant (toB64Url, fromB64Url)\<close>

definition enc6 :: "nat \<Rightarrow> code_unit" where
  "enc6 n = of_nat (if n < 26 then 65 + n else if n < 52 then 71 + n
                     else if n < 62 then n - 4 else if n = 62 then 43 else 47)"

definition dec6 :: "code_unit \<Rightarrow> nat option" where
  "dec6 c = (let u = unat c in
     if 65 \<le> u \<and> u \<le> 90 then Some (u - 65)
     else if 97 \<le> u \<and> u \<le> 122 then Some (u - 71)
     else if 48 \<le> u \<and> u \<le> 57 then Some (u + 4)
     else if u = 43 then Some 62
     else if u = 47 then Some 63
     else None)"

definition padChar :: code_unit where
  "padChar = 0x3D"

text \<open>
  \<open>btoa\<close> on the binary string that \<open>toB64Url\<close> builds with \<open>String.fromCharCode\<close>: one
  code unit below 256 per byte, so \<open>btoa\<close> cannot throw and is modelled on the byte values.
\<close>

fun btoa :: "nat list \<Rightarrow> jsstring" where
  "btoa [] = []"
| "btoa [a] = [enc6 (a div 4), enc6 (a mod 4 * 16), padChar, padChar]"
| "btoa [a, b] = [enc6 (a div 4), enc6 (a mod 4 * 16 + b div 16), enc6 (b mod 16 * 4), padChar]"
| "btoa (a # b # c # rest) =
     [enc6 (a div 4), enc6 (a mod 4 * 16 + b div 16), enc6 (b mod 16 * 4 + c div 64), enc6 (c mod 64)]
     @ btoa rest"

text \<open>\<open>s.replace(/x/g, y)\<close> for a single code unit \<open>x\<close>, and \<open>s.replace(/=+$/g, "")\<close>.\<close>

definition replaceAll :: "code_unit \<Rightarrow> code_unit \<Rightarrow> jsstring \<Rightarrow> jsstring" where
  "replaceAll x y s = map (\<lambda>c. if c = x then y else c) s"

definition stripPadding :: "jsstring \<Rightarrow> jsstring" where
  "stripPadding s = rev (dropWhile (\<lambda>c. c = padChar) (rev s))"

definition toB64Url :: "bytes \<Rightarrow> jsstring" where
  "toB64Url bs = stripPadding (replaceAll 0x2F 0x5F (replaceAll 0x2B 0x2D (btoa (map unat bs))))"

text \<open>
  \<open>atob\<close> is the forgiving-base64 decoder: ASCII whitespace is removed; if the length is a
  multiple of four, one or two trailing \<open>=\<close> are removed; a length of 1 modulo 4 or a code
  unit outside the alphabet fails (\<open>None\<close>: \<open>atob\<close> throws); the remaining bits of an
  incomplete group are dropped.
\<close>

definition isAsciiWhitespace :: "code_unit \<Rightarrow> bool" where
  "isAsciiWhitespace c \<longleftrightarrow> c = 0x9 \<or> c = 0xA \<or> c = 0xC \<or> c = 0xD \<or> c = 0x20"

definition removePadding :: "jsstring \<Rightarrow> jsstring" where
  "removePadding d =
     (if length d mod 4 = 0 \<and> d \<noteq> [] \<and> last d = padChar
      then (if butlast d \<noteq> [] \<and> last (butlast d) = padChar then butlast (butlast d) else butlast d)
      else d)"

fun sextets :: "jsstring \<Rightarrow> nat list option" where
  "sextets [] = Some []"
| "sextets (c # cs) =
     (case dec6 c of None \<Rightarrow> None
      | Some n \<Rightarrow> (case sextets cs of None \<Rightarrow> None | Some ns \<Rightarrow> Some (n # ns)))"

fun decodeSextets :: "nat list \<Rightarrow> nat list" where
  "decodeSextets (a # b # c # d # rest) =
     [a * 4 + b div 16, b mod 16 * 16 + c div 4, c mod 4 * 64 + d] @ decodeSextets rest"
| "decodeSextets [a, b, c] = [a * 4 + b div 16, b mod 16 * 16 + c div 4]"
| "decodeSextets [a, b] = [a * 4 + b div 16]"
| "decodeSextets _ = []"

definition atob :: "jsstring \<Rightarrow> bytes option" where
  "atob data =
     (let d = removePadding (filter (\<lambda>c. \<not> isAsciiWhitespace c) data) in
      if length d mod 4 = 1 then None
      else (case sextets d of None \<Rightarrow> None
            | Some ns \<Rightarrow> Some (map of_nat (decodeSextets ns))))"

definition fromB64Url :: "jsstring \<Rightarrow> bytes option" where
  "fromB64Url b64url =
     atob (replaceAll 0x5F 0x2F (replaceAll 0x2D 0x2B b64url)
           @ drop ((length b64url + 3) mod 4) (js ''===''))"

subsection \<open>The host: WebCrypto and JSON\<close>

text \<open>
  The cryptographic primitives and the JSON functions of the browser are parameters of
  the model. \<open>subtle_pbkdf2\<close> is PBKDF2-SHA256 to an AES-256-GCM key on the encoded
  password, the salt and the number of iterations it runs; \<open>None\<close> is a rejected promise
  (PBKDF2 rejects zero iterations). \<open>subtle_decrypt\<close> returns \<open>None\<close> when AES-GCM
  rejects. \<open>to_number\<close> is the conversion of a string, an array or an object to a number.
\<close>

type_synonym cryptoKey = bytes

record host =
  subtle_available :: bool
  subtle_pbkdf2 :: "bytes \<Rightarrow> bytes \<Rightarrow> int \<Rightarrow> cryptoKey option"
  subtle_encrypt :: "cryptoKey \<Rightarrow> bytes \<Rightarrow> bytes \<Rightarrow> bytes option"
  subtle_decrypt :: "cryptoKey \<Rightarrow> bytes \<Rightarrow> bytes \<Rightarrow> bytes option"
  subtle_digest :: "bytes \<Rightarrow> bytes"
  json_stringify :: "json \<Rightarrow> jsstring"
  json_parse :: "jsstring \<Rightarrow> json option"
  to_number :: "json \<Rightarrow> number"

text \<open>
  \<open>crypto.subtle.importKey\<close> followed by \<open>crypto.subtle.deriveKey\<close> with the algorithm
  \<open>{name: "PBKDF2", salt, iterations, hash: "SHA-256"}\<close>. The member \<open>iterations\<close> is
  declared \<open>[EnforceRange] unsigned long\<close>: the value the caller passes is converted to a
  number (\<open>undefined\<close> to \<open>NaN\<close>, \<open>null\<close> to 0, a boolean to 0 or 1); \<open>NaN\<close> and the
  infinities are a \<open>TypeError\<close>, a finite number is truncated towards zero and is a
  \<open>TypeError\<close> outside 0 .. 4294967295. PBKDF2 runs with the resulting integer.
\<close>

fun toNumber :: "host \<Rightarrow> json option \<Rightarrow> number" where
  "toNumber h None = NaN"
| "toNumber h (Some JNull) = Finite 0"
| "toNumber h (Some (JBool b)) = Finite (if b then 1 else 0)"
| "toNumber h (Some (JNum x)) = x"
| "toNumber h (Some v) = to_number h v"

fun enforceRangeUnsignedLong :: "number \<Rightarrow> int option" where
  "enforceRangeUnsignedLong (Finite q) =
     (let i = (if 0 \<le> q then \<lfloor>q\<rfloor> else \<lceil>q\<rceil>)
      in if 0 \<le> i \<and> i \<le> 4294967295 then Some i else None)"
| "enforceRangeUnsignedLong x = None"

definition subtle_deriveKey :: "host \<Rightarrow> bytes \<Rightarrow> bytes \<Rightarrow> json option \<Rightarrow> cryptoKey option" where
  "subtle_deriveKey h password salt iterations =
     (case enforceRangeUnsignedLong (toNumber h iterations) of
        None \<Rightarrow> None
      | Some n \<Rightarrow> subtle_pbkdf2 h password salt n)"

text \<open>The cryptographic calls a function makes, in order.\<close>

datatype cryptoOp = OpDeriveKey "json option" | OpEncrypt | OpDecrypt | OpDigest

text \<open>
  What the functions throw: the \<open>Error\<close> of \<open>assertWebCrypto\<close>; "Invalid token (missing
  PASCO1 header)."; "Invalid token format."; an exception of \<open>atob\<close> or \<open>JSON.parse\<close> in
  \<open>unpackHeader\<close>, or the \<open>TypeError\<close> of reading \<open>v\<close> of \<open>null\<close>; "Unsupported token
  version."; "Unsupported algorithm."; "Unsupported KDF."; an exception of \<open>fromB64Url\<close> on
  the salt, the IV or the ciphertext segment; a rejected \<open>deriveKey\<close>; a rejected
  \<open>encrypt\<close>; "Wrong key or corrupted token.".
\<close>

datatype error =
    WebCryptoUnavailable
  | MissingPrefix
  | InvalidTokenFormat
  | HeaderUnparseable
  | UnsupportedVersion
  | UnsupportedAlgorithm
  | UnsupportedKDF
  | MalformedField
  | KeyDerivationRejected
  | EncryptionRejected
  | WrongKeyOrCorrupted

text \<open>The errors the specification calls FormatError.\<close>

definition isFormatError :: "error \<Rightarrow> bool" where
  "isFormatError e \<longleftrightarrow> e = MissingPrefix \<or> e = InvalidTokenFormat \<or> e = HeaderUnparseable \<or>
     e = UnsupportedVersion \<or> e = UnsupportedAlgorithm \<or> e = UnsupportedKDF"

subsection \<open>crypto.ts\<close>

definition hexDigit :: "nat \<Rightarrow> code_unit" where
  "hexDigit n = of_nat (if n < 10 then 48 + n else 87 + n)"

definition byteHex :: "byte \<Rightarrow> jsstring" where
  "byteHex b = [hexDigit (unat b div 16), hexDigit (unat b mod 16)]"

definition sha256Hex :: "host \<Rightarrow> bytes \<Rightarrow> cryptoOp list \<times> (error + jsstring)" where
  "sha256Hex h bs =
     (if \<not> subtle_available h then ([], Inl WebCryptoUnavailable)
      else ([OpDigest], Inr (concat (map byteHex (subtle_digest h bs)))))"

definition deriveKey :: "host \<Rightarrow> jsstring \<Rightarrow> bytes \<Rightarrow> json option \<Rightarrow> cryptoOp list \<times> (error + cryptoKey)" where
  "deriveKey h password salt iterations =
     (if \<not> subtle_available h then ([], Inl WebCryptoUnavailable)
      else (case subtle_deriveKey h (textEncoderEncode password) salt iterations of
              None \<Rightarrow> ([OpDeriveKey iterations], Inl KeyDerivationRejected)
            | Some key \<Rightarrow> ([OpDeriveKey iterations], Inr key)))"

definition utf8Encode :: "jsstring \<Rightarrow> bytes" where
  "utf8Encode s = textEncoderEncode s"

definition utf8Decode :: "bytes \<Rightarrow> jsstring" where
  "utf8Decode bs = textDecoderDecode bs"

definition packHeader :: "host \<Rightarrow> json \<Rightarrow> jsstring" where
  "packHeader h header = toB64Url (utf8Encode (json_stringify h header))"

definition unpackHeader :: "host \<Rightarrow> jsstring \<Rightarrow> error + json" where
  "unpackHeader h b64url =
     (case fromB64Url b64url of None \<Rightarrow> Inl HeaderUnparseable
      | Some bs \<Rightarrow> (case json_parse h (utf8Decode bs) of
                     None \<Rightarrow> Inl HeaderUnparseable
                   | Some header \<Rightarrow> Inr header))"

datatype DecryptResult =
    TextResult json jsstring jsstring
  | FileResult json bytes jsstring


fun resultFingerprint :: "DecryptResult \<Rightarrow> jsstring" where
  "resultFingerprint (TextResult header t fp) = fp"
| "resultFingerprint (FileResult header bs fp) = fp"

text \<open>\<open>fromB64Url(header.salt)\<close>: a value that is not a string has no \<open>replace\<close> method.\<close>

fun fromB64UrlValue :: "json option \<Rightarrow> bytes option" where
  "fromB64UrlValue (Some (JStr s)) = fromB64Url s"
| "fromB64UrlValue _ = None"

definition decryptToken ::
  "host \<Rightarrow> jsstring \<Rightarrow> jsstring \<Rightarrow> cryptoOp list \<times> (error + DecryptResult)" where
  "decryptToken h token password =
     (if \<not> subtle_available h then ([], Inl WebCryptoUnavailable)
      else let trimmed = trim token in
      if \<not> startsWith trimmed (js ''PASCO1.'') then ([], Inl MissingPrefix)
      else let parts = split dot trimmed in
      if length parts \<noteq> 3 then ([], Inl InvalidTokenFormat)
      else (case unpackHeader h (parts ! 1) of
        Inl e \<Rightarrow> ([], Inl e)
      | Inr header \<Rightarrow>
         if header = JNull then ([], Inl HeaderUnparseable)
         else if getProp header (js ''v'') \<noteq> Some (JNum (Finite 1)) then ([], Inl UnsupportedVersion)
         else if getProp header (js ''alg'') \<noteq> Some (JStr (js ''AES-256-GCM''))
           then ([], Inl UnsupportedAlgorithm)
         else if getProp header (js ''kdf'') \<noteq> Some (JStr (js ''PBKDF2-SHA256''))
           then ([], Inl UnsupportedKDF)
         else (case fromB64UrlValue (getProp header (js ''salt'')) of
           None \<Rightarrow> ([], Inl MalformedField)
         | Some salt \<Rightarrow>
          (case fromB64UrlValue (getProp header (js ''iv'')) of
             None \<Rightarrow> ([], Inl MalformedField)
           | Some iv \<Rightarrow>
            (case fromB64Url (parts ! 2) of
               None \<Rightarrow> ([], Inl MalformedField)
             | Some ctBytes \<Rightarrow>
              (case deriveKey h password salt (getProp header (js ''iter'')) of
                 (ops, Inl e) \<Rightarrow> (ops, Inl e)
               | (ops, Inr key) \<Rightarrow>
                (case subtle_decrypt h key iv ctBytes of
                   None \<Rightarrow> (ops @ [OpDecrypt], Inl WrongKeyOrCorrupted)
                 | Some ptBuf \<Rightarrow>
                  (case sha256Hex h ctBytes of
                     (ops', Inl e) \<Rightarrow> (ops @ [OpDecrypt] @ ops', Inl e)
                   | (ops', Inr fingerprint) \<Rightarrow>
                      if getProp header (js ''kind'') = Some (JStr (js ''text''))
                      then (ops @ [OpDecrypt] @ ops',
                            Inr (TextResult header (utf8Decode ptBuf) fingerprint))
                      else (ops @ [OpDecrypt] @ ops',
                            Inr (FileResult header ptBuf fingerprint))))))))))"

definition fingerprintFromToken :: "host \<Rightarrow> jsstring \<Rightarrow> cryptoOp list \<times> (error + jsstring)" where
  "fingerprintFromToken h token =
     (if \<not> subtle_available h then ([], Inl WebCryptoUnavailable)
      else let trimmed = trim token in
      if \<not> startsWith trimmed (js ''PASCO1.'') then ([], Inl MissingPrefix)
      else let parts = split dot trimmed in
      if length parts \<noteq> 3 then ([], Inl InvalidTokenFormat)
      else (case fromB64Url (parts ! 2) of
              None \<Rightarrow> ([], Inl MalformedField)
            | Some ctBytes \<Rightarrow> sha256Hex h ctBytes))"

text \<open>
  \<open>crypto.getRandomValues\<close> draws from a source of random bytes, modelled as a stream;
  \<open>new Date().toISOString()\<close> is the argument \<open>now\<close> of the encrypt functions.
\<close>

type_synonym randomSource = "nat \<Rightarrow> byte"

definition getRandomValues :: "randomSource \<Rightarrow> nat \<Rightarrow> bytes \<times> randomSource" where
  "getRandomValues r n = (map r [0..<n], \<lambda>i. r (n + i))"

record EncryptOptions =
  opt_password :: jsstring
  opt_note :: "jsstring option"
  opt_iterations :: "number option"

record EncryptResult =
  enc_token :: jsstring
  enc_header :: json
  enc_fingerprint :: jsstring

record File =
  file_name :: jsstring
  file_type :: jsstring
  file_bytes :: bytes

text \<open>\<open>note: opts.note?.trim() || undefined\<close>: the property is absent when the note is blank.\<close>

definition noteProperty :: "jsstring option \<Rightarrow> (jsstring \<times> json) list" where
  "noteProperty note =
     (case note of None \<Rightarrow> []
      | Some n \<Rightarrow> if trim n = [] then [] else [(js ''note'', JStr (trim n))])"

definition encryptText ::
  "host \<Rightarrow> randomSource \<Rightarrow> jsstring \<Rightarrow> jsstring \<Rightarrow> EncryptOptions
     \<Rightarrow> cryptoOp list \<times> (error + EncryptResult)" where
  "encryptText h rnd now txt opts =
     (if \<not> subtle_available h then ([], Inl WebCryptoUnavailable)
      else let iterations =
                 mathMax (Finite 50000) (mathMin (Finite 600000)
                   (case opt_iterations opts of None \<Rightarrow> Finite 220000 | Some n \<Rightarrow> n));
               (salt, rnd') = getRandomValues rnd 16;
               (iv, rnd'') = getRandomValues rnd' 12
      in (case deriveKey h (opt_password opts) salt (Some (JNum iterations)) of
        (ops, Inl e) \<Rightarrow> (ops, Inl e)
      | (ops, Inr key) \<Rightarrow>
         (case subtle_encrypt h key iv (utf8Encode txt) of
            None \<Rightarrow> (ops @ [OpEncrypt], Inl EncryptionRejected)
          | Some ctBytes \<Rightarrow>
             let header = JObj ([(js ''v'', JNum (Finite 1)),
                                 (js ''alg'', JStr (js ''AES-256-GCM'')),
                                 (js ''kdf'', JStr (js ''PBKDF2-SHA256'')),
                                 (js ''iter'', JNum iterations),
                                 (js ''salt'', JStr (toB64Url salt)),
                                 (js ''iv'', JStr (toB64Url iv)),
                                 (js ''createdAt'', JStr now),
                                 (js ''kind'', JStr (js ''text''))]
                                @ noteProperty (opt_note opts));
                 token = js ''PASCO1.'' @ packHeader h header @ js ''.'' @ toB64Url ctBytes
             in (case sha256Hex h ctBytes of
                   (ops', Inl e) \<Rightarrow> (ops @ [OpEncrypt] @ ops', Inl e)
                 | (ops', Inr fingerprint) \<Rightarrow>
                     (ops @ [OpEncrypt] @ ops',
                      Inr \<lparr>enc_token = token, enc_header = header,
                           enc_fingerprint = fingerprint\<rparr>)))))"

definition encryptFile ::
  "host \<Rightarrow> randomSource \<Rightarrow> jsstring \<Rightarrow> File \<Rightarrow> EncryptOptions
     \<Rightarrow> cryptoOp list \<times> (error + EncryptResult)" where
  "encryptFile h rnd now file opts =
     (if \<not> subtle_available h then ([], Inl WebCryptoUnavailable)
      else let iterations =
                 mathMax (Finite 50000) (mathMin (Finite 600000)
                   (case opt_iterations opts of None \<Rightarrow> Finite 260000 | Some n \<Rightarrow> n));
               (salt, rnd') = getRandomValues rnd 16;
               (iv, rnd'') = getRandomValues rnd' 12
      in (case deriveKey h (opt_password opts) salt (Some (JNum iterations)) of
        (ops, Inl e) \<Rightarrow> (ops, Inl e)
      | (ops, Inr key) \<Rightarrow>
         (case subtle_encrypt h key iv (file_bytes file) of
            None \<Rightarrow> (ops @ [OpEncrypt], Inl EncryptionRejected)
          | Some ctBytes \<Rightarrow>
             let header = JObj ([(js ''v'', JNum (Finite 1)),
                                 (js ''alg'', JStr (js ''AES-256-GCM'')),
                                 (js ''kdf'', JStr (js ''PBKDF2-SHA256'')),
                                 (js ''iter'', JNum iterations),
                                 (js ''salt'', JStr (toB64Url salt)),
                                 (js ''iv'', JStr (toB64Url iv)),
                                 (js ''createdAt'', JStr now),
                                 (js ''kind'', JStr (js ''file'')),
                                 (js ''filename'', JStr (file_name file)),
                                 (js ''mime'', JStr (if file_type file = [] then js ''application/octet-stream''
                                                     else file_type file)),
                                 (js ''size'', JNum (Finite (of_nat (length (file_bytes file)))))]
                                @ noteProperty (opt_note opts));
                 token = js ''PASCO1.'' @ packHeader h header @ js ''.'' @ toB64Url ctBytes
             in (case sha256Hex h ctBytes of
                   (ops', Inl e) \<Rightarrow> (ops @ [OpEncrypt] @ ops', Inl e)
                 | (ops', Inr fingerprint) \<Rightarrow>
                     (ops @ [OpEncrypt] @ ops',
                      Inr \<lparr>enc_token = token, enc_header = header,
                           enc_fingerprint = fingerprint\<rparr>)))))"

subsection \<open>CryptoLab.tsx: the attempt counter\<close>

text \<open>
  The map under the \<open>localStorage\<close> key \<open>pasco_crypto_attempts_v2\<close>, from fingerprint to
  the number of failed attempts; \<open>attemptsMap[fp] ?? 0\<close> reads a missing entry as 0.
\<close>

type_synonym attemptsMap = "jsstring \<rightharpoonup> nat"

definition maxAttempts :: nat where
  "maxAttempts = 5"

definition used :: "attemptsMap \<Rightarrow> jsstring \<Rightarrow> nat" where
  "used m fp = (case m fp of None \<Rightarrow> 0 | Some n \<Rightarrow> n)"

text \<open>The message \<open>runDecrypt\<close> shows.\<close>

datatype toast =
    PasteTokenFirst
  | EnterSecretKey
  | Locked
  | DecryptedSuccessfully
  | FileDecryptedSuccessfully
  | WrongKeyLocked
  | WrongKeyAttemptsLeft nat
  | DecryptionFailed error

text \<open>
  What one run of \<open>runDecrypt\<close> leaves behind: the stored map, the message, the component's
  \<open>decryptedText\<close> and \<open>decryptedFileBytes\<close>, and the cryptographic calls made. The run
  starts from the stored map and from what the component shows (\<open>shown\<close>, the earlier
  \<open>decryptedText\<close> and \<open>decryptedFileBytes\<close>): a run that returns at one of the two guards
  keeps it, every other run resets it to \<open>""\<close> and \<open>null\<close> first. The progress bar and the
  history list are not modelled.
\<close>

record decryptOutcome =
  attempts :: attemptsMap
  message :: toast
  decryptedText :: jsstring
  decryptedFileBytes :: "bytes option"
  cryptoCalls :: "cryptoOp list"

definition runDecrypt ::
  "host \<Rightarrow> attemptsMap \<Rightarrow> jsstring \<times> bytes option \<Rightarrow> jsstring \<Rightarrow> jsstring \<Rightarrow> decryptOutcome" where
  "runDecrypt h stored shown tokenToDecrypt decPassword =
     (let token = trim tokenToDecrypt in
      if token = [] then
        \<lparr>attempts = stored, message = PasteTokenFirst, decryptedText = fst shown,
         decryptedFileBytes = snd shown, cryptoCalls = []\<rparr>
      else if trim decPassword = [] then
        \<lparr>attempts = stored, message = EnterSecretKey, decryptedText = fst shown,
         decryptedFileBytes = snd shown, cryptoCalls = []\<rparr>
      else (case decryptToken h token decPassword of
        (ops, Inr res) \<Rightarrow>
          if used stored (resultFingerprint res) \<ge> maxAttempts then
            \<lparr>attempts = stored, message = Locked, decryptedText = [],
             decryptedFileBytes = None, cryptoCalls = ops\<rparr>
          else (case res of
            TextResult header t fp \<Rightarrow>
              \<lparr>attempts = stored(fp \<mapsto> 0), message = DecryptedSuccessfully, decryptedText = t,
               decryptedFileBytes = None, cryptoCalls = ops\<rparr>
          | FileResult header bs fp \<Rightarrow>
              \<lparr>attempts = stored(fp \<mapsto> 0), message = FileDecryptedSuccessfully,
               decryptedText = [], decryptedFileBytes = Some bs, cryptoCalls = ops\<rparr>)
      | (ops, Inl e) \<Rightarrow>
          (case fingerprintFromToken h token of
             (ops', Inl e') \<Rightarrow>
               \<lparr>attempts = stored, message = DecryptionFailed e, decryptedText = [],
                decryptedFileBytes = None, cryptoCalls = ops @ ops'\<rparr>
           | (ops', Inr fp) \<Rightarrow>
               if fp \<noteq> js ''unknown'' then
                 let next = used stored fp + 1;
                     left = maxAttempts - next
                 in \<lparr>attempts = stored(fp \<mapsto> next),
                     message = (if left \<le> 0 then WrongKeyLocked else WrongKeyAttemptsLeft left),
                     decryptedText = [], decryptedFileBytes = None, cryptoCalls = ops @ ops'\<rparr>
               else
                 \<lparr>attempts = stored, message = DecryptionFailed e, decryptedText = [],
                  decryptedFileBytes = None, cryptoCalls = ops @ ops'\<rparr>)))"

subsection \<open>Auxiliary definitions for the statements and proofs\<close>

text \<open>
  Consecutive attempts on one token, each starting from the map the previous one stored
  and from what the previous one left on display.
\<close>

fun runAttempts ::
  "host \<Rightarrow> attemptsMap \<Rightarrow> jsstring \<times> bytes option \<Rightarrow> jsstring \<Rightarrow> jsstring list \<Rightarrow> attemptsMap" where
  "runAttempts h stored shown tok [] = stored"
| "runAttempts h stored shown tok (pw # pws) =
     runAttempts h (attempts (runDecrypt h stored shown tok pw))
       (decryptedText (runDecrypt h stored shown tok pw),
        decryptedFileBytes (runDecrypt h stored shown tok pw)) tok pws"

text \<open>The two \<open>replace\<close> calls of \<open>toB64Url\<close> and of \<open>fromB64Url\<close> on one code unit.\<close>

definition urlSafe :: "code_unit \<Rightarrow> code_unit" where
  "urlSafe c = (if c = 0x2B then 0x2D else if c = 0x2F then 0x5F else c)"

definition urlUnsafe :: "code_unit \<Rightarrow> code_unit" where
  "urlUnsafe c = (if c = 0x2D then 0x2B else if c = 0x5F then 0x2F else c)"

text \<open>
  Strings that \<open>TextEncoder\<close> and \<open>TextDecoder\<close> give back unchanged: every surrogate is
  paired, and the first code unit is not the byte order mark.
\<close>

fun wellFormedUtf16 :: "jsstring \<Rightarrow> bool" where
  "wellFormedUtf16 [] = True"
| "wellFormedUtf16 [c] = (\<not> isLeadSurrogate c \<and> \<not> isTrailSurrogate c)"
| "wellFormedUtf16 (c # d # cs) =
     (if isLeadSurrogate c \<and> isTrailSurrogate d then wellFormedUtf16 cs
      else \<not> isLeadSurrogate c \<and> \<not> isTrailSurrogate c \<and> wellFormedUtf16 (d # cs))"

definition startsWithBOM :: "jsstring \<Rightarrow> bool" where
  "startsWithBOM s = (case s of [] \<Rightarrow> False | c # cs \<Rightarrow> c = 0xFEFF)"

definition isScalar :: "int \<Rightarrow> bool" where
  "isScalar cp \<longleftrightarrow> 0 \<le> cp \<and> cp < 0x110000 \<and> (cp < 0xD800 \<or> 0xE000 \<le> cp)"

text \<open>
  A small concrete host on which the theorems are instantiated: the key is the encoded
  password whatever the positive number of iterations, a ciphertext is the key followed
  by the plaintext and decryption checks that prefix, the digest is the length byte, and
  JSON knows four headers and parses a fifth, of version 2.
\<close>

definition demoTextHeader :: json where
  "demoTextHeader = JObj [(js ''v'', JNum (Finite 1)), (js ''alg'', JStr (js ''AES-256-GCM'')),
     (js ''kdf'', JStr (js ''PBKDF2-SHA256'')), (js ''iter'', JNum (Finite 220000)),
     (js ''salt'', JStr (js ''AAAAAAAAAAAAAAAAAAAAAA'')), (js ''iv'', JStr (js ''AAAAAAAAAAAAAAAA'')),
     (js ''createdAt'', JStr (js ''2024-01-01T00:00:00.000Z'')), (js ''kind'', JStr (js ''text''))]"

definition demoFileHeader :: json where
  "demoFileHeader = JObj [(js ''v'', JNum (Finite 1)), (js ''alg'', JStr (js ''AES-256-GCM'')),
     (js ''kdf'', JStr (js ''PBKDF2-SHA256'')), (js ''iter'', JNum (Finite 260000)),
     (js ''salt'', JStr (js ''AAAAAAAAAAAAAAAAAAAAAA'')), (js ''iv'', JStr (js ''AAAAAAAAAAAAAAAA'')),
     (js ''createdAt'', JStr (js ''2024-01-01T00:00:00.000Z'')), (js ''kind'', JStr (js ''file'')),
     (js ''filename'', JStr (js ''a.bin'')), (js ''mime'', JStr (js ''application/octet-stream'')),
     (js ''size'', JNum (Finite 3))]"

definition demoBareHeader :: json where
  "demoBareHeader = JObj [(js ''v'', JNum (Finite 1)), (js ''alg'', JStr (js ''AES-256-GCM'')),
     (js ''kdf'', JStr (js ''PBKDF2-SHA256'')), (js ''iter'', JNum (Finite 220000)),
     (js ''salt'', JStr (js ''AAAAAAAAAAAAAAAAAAAAAA'')), (js ''iv'', JStr (js ''AAAAAAAAAAAAAAAA''))]"

definition demoHalfHeader :: json where
  "demoHalfHeader = JObj [(js ''v'', JNum (Finite 1)), (js ''alg'', JStr (js ''AES-256-GCM'')),
     (js ''kdf'', JStr (js ''PBKDF2-SHA256'')), (js ''iter'', JNum (Finite (200001 / 2))),
     (js ''salt'', JStr (js ''AAAAAAAAAAAAAAAAAAAAAA'')), (js ''iv'', JStr (js ''AAAAAAAAAAAAAAAA'')),
     (js ''createdAt'', JStr (js ''2024-01-01T00:00:00.000Z'')), (js ''kind'', JStr (js ''text''))]"

definition demoHost :: host where
  "demoHost = \<lparr>
     subtle_available = True,
     subtle_pbkdf2 = (\<lambda>pw salt n. if 0 < n then Some pw else None),
     subtle_encrypt = (\<lambda>k iv pt. Some (k @ pt)),
     subtle_decrypt = (\<lambda>k iv ct. if take (length k) ct = k then Some (drop (length k) ct) else None),
     subtle_digest = (\<lambda>bs. [of_nat (length bs)]),
     json_stringify = (\<lambda>j. if j = demoTextHeader then js ''{text}''
                            else if j = demoFileHeader then js ''{file}''
                            else if j = demoBareHeader then js ''{bare}''
                            else if j = demoHalfHeader then js ''{half}'' else js ''null''),
     json_parse = (\<lambda>s. if s = js ''{text}'' then Some demoTextHeader
                        else if s = js ''{file}'' then Some demoFileHeader
                        else if s = js ''{bare}'' then Some demoBareHeader
                        else if s = js ''{half}'' then Some demoHalfHeader
                        else if s = js ''{old}'' then Some (JObj [(js ''v'', JNum (Finite 2))]) else None),
     to_number = (\<lambda>v. NaN)\<rparr>"

definition demoToken :: jsstring where
  "demoToken = js ''PASCO1.e3RleHR9.cHdoaQ''"

definition demoFileToken :: jsstring where
  "demoFileToken = js ''PASCO1.e2ZpbGV9.cHcBAgM''"

definition demoBareToken :: jsstring where
  "demoBareToken = js ''PASCO1.e2JhcmV9.cHdoaQ''"

definition demoHalfToken :: jsstring where
  "demoHalfToken = js ''PASCO1.e2hhbGZ9.cHdoaQ''"

definition demoOptions :: EncryptOptions where
  "demoOptions = \<lparr>opt_password = js ''pw'', opt_note = None, opt_iterations = None\<rparr>"

definition demoFile :: File where
  "demoFile = \<lparr>file_name = js ''a.bin'', file_type = [], file_bytes = [1, 2, 3]\<rparr>"

definition demoRandom :: randomSource where
  "demoRandom = (\<lambda>i. 0)"

definition demoMarkedToken :: jsstring where
  "demoMarkedToken = js ''PASCO1.e3RleHR9.cHfvu79oaQ''"

definition demoNow :: jsstring where
  "demoNow = js ''2024-01-01T00:00:00.000Z''"

section \<open>Properties\<close>

subsection \<open>trim, split and the hexadecimal digest\<close>

lemma stripEnd_Cons:
  "\<not> P x \<Longrightarrow> rev (dropWhile P (rev (x # xs))) = x # rev (dropWhile P (rev xs))"
  by (simp add: dropWhile_append3)

lemma trim_Nil:
  assumes "dropWhile isWhiteSpace s = []"
  shows "trim s = []"
  unfolding trim_def assms by simp

lemma trim_Cons:
  "dropWhile isWhiteSpace s = x # xs \<Longrightarrow> trim s = x # rev (dropWhile isWhiteSpace (rev xs))"
proof -
  assume d: "dropWhile isWhiteSpace s = x # xs"
  then have "\<not> isWhiteSpace x"
    by (metis hd_dropWhile list.distinct(1) list.sel(1))
  then have "rev (dropWhile isWhiteSpace (rev (x # xs))) = x # rev (dropWhile isWhiteSpace (rev xs))"
    by (rule stripEnd_Cons)
  with d show ?thesis unfolding trim_def by simp
qed

lemma trim_trim: "trim (trim s) = trim s"
proof (cases "dropWhile isWhiteSpace s")
  case Nil
  then have "trim s = []" by (rule trim_Nil)
  moreover have "trim [] = []" unfolding trim_def by simp
  ultimately show ?thesis by simp
next
  case (Cons x xs)
  then have nx: "\<not> isWhiteSpace x"
    by (metis hd_dropWhile list.distinct(1) list.sel(1))
  let ?r = "rev (dropWhile isWhiteSpace (rev xs))"
  have t: "trim s = x # ?r" using Cons by (rule trim_Cons)
  have "dropWhile isWhiteSpace (x # ?r) = x # ?r" using nx by simp
  then have "trim (x # ?r) = x # rev (dropWhile isWhiteSpace (rev ?r))" by (rule trim_Cons)
  also have "rev (dropWhile isWhiteSpace (rev ?r)) = ?r" by simp
  finally show ?thesis using t by simp
qed

lemma trim_surrounding:
  assumes "\<forall>c\<in>set ws1. isWhiteSpace c" and "\<forall>c\<in>set ws2. isWhiteSpace c"
  shows "trim (ws1 @ s @ ws2) = trim s"
proof -
  have a: "dropWhile isWhiteSpace (ws1 @ s @ ws2) = dropWhile isWhiteSpace (s @ ws2)"
    using assms(1) by (auto simp: dropWhile_append)
  show ?thesis
  proof (cases "dropWhile isWhiteSpace s")
    case Nil
    then have "\<forall>c\<in>set s. isWhiteSpace c" by (simp add: dropWhile_eq_Nil_conv)
    then have "dropWhile isWhiteSpace (s @ ws2) = []"
      using assms(2) by (simp add: dropWhile_append)
    with a have "trim (ws1 @ s @ ws2) = []" by (simp add: trim_Nil)
    moreover have "trim s = []" using Nil by (rule trim_Nil)
    ultimately show ?thesis by simp
  next
    case (Cons x xs)
    then have "\<not> (\<forall>c\<in>set s. isWhiteSpace c)"
      by (metis dropWhile_eq_Nil_conv list.distinct(1))
    then have "dropWhile isWhiteSpace (s @ ws2) = (x # xs) @ ws2"
      using Cons by (auto simp: dropWhile_append)
    with a have "dropWhile isWhiteSpace (ws1 @ s @ ws2) = x # (xs @ ws2)" by simp
    then have "trim (ws1 @ s @ ws2) = x # rev (dropWhile isWhiteSpace (rev (xs @ ws2)))"
      by (rule trim_Cons)
    also have "dropWhile isWhiteSpace (rev (xs @ ws2)) = dropWhile isWhiteSpace (rev xs)"
      using assms(2) by (auto simp: dropWhile_append)
    also have "x # rev (dropWhile isWhiteSpace (rev xs)) = trim s"
      using Cons by (simp add: trim_Cons)
    finally show ?thesis .
  qed
qed

lemma split_no_sep: "d \<notin> set s \<Longrightarrow> split d s = [s]"
  by (induction s) auto

lemma split_append: "d \<notin> set a \<Longrightarrow> split d (a @ d # r) = a # split d r"
  by (induction a) auto

lemma trim_id:
  assumes "s \<noteq> []" "\<not> isWhiteSpace (hd s)" "\<not> isWhiteSpace (last s)"
  shows "trim s = s"
proof -
  from assms obtain x xs where s: "s = x # xs" by (cases s) auto
  with assms have "dropWhile isWhiteSpace s = x # xs" by simp
  then have t: "trim s = x # rev (dropWhile isWhiteSpace (rev xs))" by (rule trim_Cons)
  show ?thesis
  proof (cases "xs = []")
    case True
    with t s show ?thesis by simp
  next
    case False
    then have "last s = last xs" using s by simp
    then have "\<not> isWhiteSpace (hd (rev xs))" using assms(3) False by (simp add: hd_rev)
    then have "dropWhile isWhiteSpace (rev xs) = rev xs"
      using False by (cases "rev xs") auto
    with t s show ?thesis by simp
  qed
qed

lemma hexDigit_not_u: "n < 16 \<Longrightarrow> hexDigit n \<noteq> 0x75"
proof -
  assume n: "n < 16"
  have "unat (hexDigit n) = (if n < 10 then 48 + n else 87 + n)"
    using n by (simp add: hexDigit_def unat_of_nat)
  then have "unat (hexDigit n) \<noteq> 117" using n by (simp split: if_splits)
  then show ?thesis by auto
qed

lemma hex_not_unknown: "concat (map byteHex ds) \<noteq> js ''unknown''"
proof (cases ds)
  case Nil
  then show ?thesis by (simp add: js_def)
next
  case (Cons d ds')
  have "unat d div 16 < 16"
    using unsigned_less [of d, where 'a = nat] by simp
  then have "hexDigit (unat d div 16) \<noteq> 0x75" by (rule hexDigit_not_u)
  with Cons show ?thesis by (simp add: byteHex_def js_def)
qed

lemma sha256Hex_not_unknown: "sha256Hex h bs = (ops, Inr fp) \<Longrightarrow> fp \<noteq> js ''unknown''"
  by (auto simp: sha256Hex_def hex_not_unknown split: if_splits)

lemma fingerprintFromToken_trim: "fingerprintFromToken h (trim t) = fingerprintFromToken h t"
  by (simp add: fingerprintFromToken_def trim_trim)

lemma decryptToken_trim: "decryptToken h (trim t) pw = decryptToken h t pw"
  by (simp add: decryptToken_def trim_trim)

subsection \<open>Base64\<close>

lemma unat_enc6:
  "n < 64 \<Longrightarrow> unat (enc6 n) = (if n < 26 then 65 + n else if n < 52 then 71 + n
                     else if n < 62 then n - 4 else if n = 62 then 43 else 47)"
  by (simp add: enc6_def unat_of_nat)

lemma dec6_enc6: "n < 64 \<Longrightarrow> dec6 (enc6 n) = Some n"
  by (auto simp: dec6_def unat_enc6 Let_def)

lemma dec6_Some_props:
  assumes "dec6 c = Some n"
  shows "c \<noteq> padChar" "\<not> isAsciiWhitespace c" "c \<noteq> 0x2D" "c \<noteq> 0x5F" "n < 64"
  using assms
  by (auto simp: dec6_def padChar_def isAsciiWhitespace_def Let_def split: if_splits)

lemma removePadding_block:
  assumes "c3 \<noteq> padChar"
  shows "removePadding ([c0, c1, c2, c3] @ y) = [c0, c1, c2, c3] @ removePadding y"
proof (cases "y = []")
  case True
  with assms show ?thesis by (simp add: removePadding_def)
next
  case False
  note y = this
  show ?thesis
  proof (cases "butlast y = []")
    case True
    with y assms show ?thesis
      by (auto simp: removePadding_def butlast_append)
  next
    case False
    with y assms show ?thesis
      by (simp add: removePadding_def butlast_append)
  qed
qed

lemma atob_block:
  assumes "dec6 c0 = Some s0" "dec6 c1 = Some s1" "dec6 c2 = Some s2" "dec6 c3 = Some s3"
  shows "atob ([c0, c1, c2, c3] @ x) =
     (case atob x of None \<Rightarrow> None
      | Some bs \<Rightarrow> Some (map of_nat [s0 * 4 + s1 div 16, s1 mod 16 * 16 + s2 div 4, s2 mod 4 * 64 + s3] @ bs))"
proof -
  have f: "filter (\<lambda>c. \<not> isAsciiWhitespace c) ([c0, c1, c2, c3] @ x)
       = [c0, c1, c2, c3] @ filter (\<lambda>c. \<not> isAsciiWhitespace c) x"
    using assms by (simp add: dec6_Some_props)
  have p: "c3 \<noteq> padChar" using assms by (simp add: dec6_Some_props)
  show ?thesis
    unfolding atob_def f removePadding_block [OF p] Let_def
    using assms by (simp split: option.splits)
qed

lemma urlSafe_map:
  "replaceAll 0x2F 0x5F (replaceAll 0x2B 0x2D s)
     = map (\<lambda>c. if c = 0x2B then 0x2D else if c = 0x2F then 0x5F else c) s"
  by (simp add: replaceAll_def)

lemma urlUnsafe_map:
  "replaceAll 0x5F 0x2F (replaceAll 0x2D 0x2B s)
     = map (\<lambda>c. if c = 0x2D then 0x2B else if c = 0x5F then 0x2F else c) s"
  by (simp add: replaceAll_def)

lemma url_inverse:
  assumes "dec6 c = Some n"
  shows "(\<lambda>c. if c = 0x2D then 0x2B else if c = 0x5F then 0x2F else c)
           ((\<lambda>c. if c = 0x2B then 0x2D else if c = 0x2F then 0x5F else c) c) = c"
  using dec6_Some_props(3,4) [OF assms] by simp

lemma url_not_pad:
  assumes "dec6 c = Some n"
  shows "(if c = 0x2B then 0x2D else if c = 0x2F then 0x5F else c) \<noteq> padChar"
  using dec6_Some_props(1) [OF assms] by (simp add: padChar_def)

lemma stripPadding_Cons: "c \<noteq> padChar \<Longrightarrow> stripPadding (c # s) = c # stripPadding s"
  by (simp add: stripPadding_def dropWhile_append3)

lemma stripPadding_pads [simp]:
  "stripPadding [] = []" "stripPadding [padChar] = []" "stripPadding [padChar, padChar] = []"
  by (simp_all add: stripPadding_def)

lemma toB64Url_alt: "toB64Url bs = stripPadding (map urlSafe (btoa (map unat bs)))"
  by (simp add: toB64Url_def urlSafe_map urlSafe_def [abs_def])

lemma fromB64Url_alt:
  "fromB64Url s = atob (map urlUnsafe s @ drop ((length s + 3) mod 4) (js ''===''))"
  by (simp add: fromB64Url_def urlUnsafe_map urlUnsafe_def [abs_def])

lemma urlUnsafe_urlSafe_enc6: "n < 64 \<Longrightarrow> urlUnsafe (urlSafe (enc6 n)) = enc6 n"
  using url_inverse [OF dec6_enc6] by (simp add: urlSafe_def urlUnsafe_def)

lemma urlSafe_enc6_not_pad: "n < 64 \<Longrightarrow> urlSafe (enc6 n) \<noteq> padChar"
  using url_not_pad [OF dec6_enc6] by (simp add: urlSafe_def)

lemma urlSafe_pad [simp]: "urlSafe padChar = padChar"
  by (simp add: urlSafe_def padChar_def)

lemma pad_literal: "js ''==='' = [padChar, padChar, padChar]"
  by (simp add: js_def padChar_def)

lemma atob_pad2:
  assumes "dec6 c0 = Some s0" "dec6 c1 = Some s1"
  shows "atob [c0, c1, padChar, padChar] = Some [of_nat (s0 * 4 + s1 div 16)]"
  using assms dec6_Some_props(1,2) [OF assms(1)] dec6_Some_props(1,2) [OF assms(2)]
  by (simp add: atob_def removePadding_def Let_def isAsciiWhitespace_def padChar_def)

lemma atob_pad1:
  assumes "dec6 c0 = Some s0" "dec6 c1 = Some s1" "dec6 c2 = Some s2"
  shows "atob [c0, c1, c2, padChar] = Some [of_nat (s0 * 4 + s1 div 16), of_nat (s1 mod 16 * 16 + s2 div 4)]"
  using assms dec6_Some_props(1,2) [OF assms(1)] dec6_Some_props(1,2) [OF assms(2)]
    dec6_Some_props(1,2) [OF assms(3)]
  by (simp add: atob_def removePadding_def Let_def isAsciiWhitespace_def padChar_def)

lemma atob_Nil [simp]: "atob [] = Some []"
  by (simp add: atob_def removePadding_def)

lemma b64_roundtrip_nat:
  assumes "\<forall>n\<in>set ns. n < 256"
  shows "atob (map urlUnsafe (stripPadding (map urlSafe (btoa ns)))
               @ drop ((length (stripPadding (map urlSafe (btoa ns))) + 3) mod 4) (js ''===''))
         = Some (map of_nat ns)"
  using assms
proof (induction ns rule: btoa.induct)
  case 1
  show ?case by (simp add: pad_literal)
next
  case (2 a)
  then have a: "a < 256" by simp
  have b: "a div 4 < 64" "a mod 4 * 16 < 64" using a by simp_all
  have e: "(a div 4) * 4 + (a mod 4 * 16) div 16 = a" by simp
  have "atob [enc6 (a div 4), enc6 (a mod 4 * 16), padChar, padChar]
      = Some [of_nat ((a div 4) * 4 + (a mod 4 * 16) div 16)]"
    by (rule atob_pad2 [OF dec6_enc6 [OF b(1)] dec6_enc6 [OF b(2)]])
  then have "atob [enc6 (a div 4), enc6 (a mod 4 * 16), padChar, padChar] = Some [of_nat a]"
    by (simp only: e)
  then show ?case
    by (simp add: stripPadding_Cons urlSafe_enc6_not_pad urlUnsafe_urlSafe_enc6 b pad_literal)
next
  case (3 a b)
  then have a: "a < 256" "b < 256" by simp_all
  have b: "a div 4 < 64" "a mod 4 * 16 + b div 16 < 64" "b mod 16 * 4 < 64" using a by simp_all
  have e: "(a div 4) * 4 + (a mod 4 * 16 + b div 16) div 16 = a"
    "(a mod 4 * 16 + b div 16) mod 16 * 16 + (b mod 16 * 4) div 4 = b" using a by simp_all
  have "atob [enc6 (a div 4), enc6 (a mod 4 * 16 + b div 16), enc6 (b mod 16 * 4), padChar]
      = Some [of_nat ((a div 4) * 4 + (a mod 4 * 16 + b div 16) div 16),
              of_nat ((a mod 4 * 16 + b div 16) mod 16 * 16 + (b mod 16 * 4) div 4)]"
    by (rule atob_pad1 [OF dec6_enc6 [OF b(1)] dec6_enc6 [OF b(2)] dec6_enc6 [OF b(3)]])
  then have "atob [enc6 (a div 4), enc6 (a mod 4 * 16 + b div 16), enc6 (b mod 16 * 4), padChar]
      = Some [of_nat a, of_nat b]"
    by (simp only: e)
  then show ?case
    by (simp add: stripPadding_Cons urlSafe_enc6_not_pad urlUnsafe_urlSafe_enc6 b pad_literal)
next
  case (4 a b c rest)
  then have a: "a < 256" "b < 256" "c < 256" and rest: "\<forall>n\<in>set rest. n < 256" by simp_all
  let ?s' = "stripPadding (map urlSafe (btoa rest))"
  have b: "a div 4 < 64" "a mod 4 * 16 + b div 16 < 64" "b mod 16 * 4 + c div 64 < 64" "c mod 64 < 64"
    using a by simp_all
  have e: "(a div 4) * 4 + (a mod 4 * 16 + b div 16) div 16 = a"
    "(a mod 4 * 16 + b div 16) mod 16 * 16 + (b mod 16 * 4 + c div 64) div 4 = b"
    "(b mod 16 * 4 + c div 64) mod 4 * 64 + c mod 64 = c" using a by simp_all
  have s: "stripPadding (map urlSafe (btoa (a # b # c # rest)))
      = [urlSafe (enc6 (a div 4)), urlSafe (enc6 (a mod 4 * 16 + b div 16)),
         urlSafe (enc6 (b mod 16 * 4 + c div 64)), urlSafe (enc6 (c mod 64))] @ ?s'"
    by (simp add: stripPadding_Cons urlSafe_enc6_not_pad b)
  have l: "(length (stripPadding (map urlSafe (btoa (a # b # c # rest)))) + 3) mod 4
      = (length ?s' + 3) mod 4"
    unfolding s by (simp, presburger)
  have "atob (map urlUnsafe (stripPadding (map urlSafe (btoa (a # b # c # rest))))
               @ drop ((length (stripPadding (map urlSafe (btoa (a # b # c # rest)))) + 3) mod 4) (js ''===''))
      = atob ([enc6 (a div 4), enc6 (a mod 4 * 16 + b div 16), enc6 (b mod 16 * 4 + c div 64), enc6 (c mod 64)]
              @ (map urlUnsafe ?s' @ drop ((length ?s' + 3) mod 4) (js ''===''))) "
    unfolding l unfolding s by (simp add: urlUnsafe_urlSafe_enc6 b)
  also have "\<dots> = Some (map of_nat [a, b, c] @ map of_nat rest)"
    unfolding atob_block [OF dec6_enc6 [OF b(1)] dec6_enc6 [OF b(2)] dec6_enc6 [OF b(3)] dec6_enc6 [OF b(4)]]
    unfolding "4.IH" [OF rest] e by simp
  finally show ?case by simp
qed

lemma fromB64Url_toB64Url: "fromB64Url (toB64Url bs) = Some bs"
proof -
  have "\<forall>n\<in>set (map unat bs). n < 256"
    using unsigned_less [where 'a = nat and 'b = 8] by auto
  from b64_roundtrip_nat [OF this] show ?thesis
    by (simp add: toB64Url_alt fromB64Url_alt comp_def)
qed

lemma dec6_urlSafe_props:
  assumes "dec6 c = Some n"
  shows "urlSafe c \<noteq> dot" "\<not> isWhiteSpace (urlSafe c)"
  using assms
  by (auto simp: dec6_def Let_def urlSafe_def isWhiteSpace_def dot_def word_le_nat_alt
      split: if_splits)

lemma pad_props: "padChar \<noteq> dot" "\<not> isWhiteSpace padChar"
  by (simp_all add: padChar_def dot_def isWhiteSpace_def)

lemma btoa_chars:
  assumes "\<forall>n\<in>set ns. n < 256" and "c \<in> set (btoa ns)"
  shows "c = padChar \<or> c \<in> enc6 ` {..<64}"
  using assms
proof (induction ns rule: btoa.induct)
  case 1
  then show ?case by simp
next
  case (2 a)
  then have a: "a < 256" by simp
  have "enc6 (a div 4) \<in> enc6 ` {..<64}" "enc6 (a mod 4 * 16) \<in> enc6 ` {..<64}"
    using a by (intro imageI, simp)+
  with 2 show ?case by auto
next
  case (3 a b)
  then have a: "a < 256" "b < 256" by simp_all
  have "enc6 (a div 4) \<in> enc6 ` {..<64}" "enc6 (a mod 4 * 16 + b div 16) \<in> enc6 ` {..<64}"
    "enc6 (b mod 16 * 4) \<in> enc6 ` {..<64}"
    using a by (intro imageI, simp)+
  with 3 show ?case by auto
next
  case (4 a b c rest)
  then have a: "a < 256" "b < 256" "c < 256" by simp_all
  have "enc6 (a div 4) \<in> enc6 ` {..<64}" "enc6 (a mod 4 * 16 + b div 16) \<in> enc6 ` {..<64}"
    "enc6 (b mod 16 * 4 + c div 64) \<in> enc6 ` {..<64}" "enc6 (c mod 64) \<in> enc6 ` {..<64}"
    using a by (intro imageI, simp)+
  with 4 show ?case by auto
qed

lemma toB64Url_chars:
  assumes "c \<in> set (toB64Url bs)"
  shows "c \<noteq> dot \<and> \<not> isWhiteSpace c"
proof -
  have "set (stripPadding (map urlSafe (btoa (map unat bs)))) \<subseteq> set (map urlSafe (btoa (map unat bs)))"
    unfolding stripPadding_def using set_dropWhileD by fastforce
  with assms obtain c' where c': "c' \<in> set (btoa (map unat bs))" "c = urlSafe c'"
    by (auto simp: toB64Url_alt)
  have "\<forall>n\<in>set (map unat bs). n < 256"
    using unsigned_less [where 'a = nat and 'b = 8] by auto
  from btoa_chars [OF this c'(1)] show ?thesis
  proof
    assume "c' = padChar"
    with c' show ?thesis by (simp add: pad_props)
  next
    assume "c' \<in> enc6 ` {..<64}"
    then obtain n where "n < 64" "c' = enc6 n" by blast
    then have "dec6 c' = Some n" by (simp add: dec6_enc6)
    with c' show ?thesis by (simp add: dec6_urlSafe_props)
  qed
qed

lemma token_shape:
  fixes hd64 ct64 :: jsstring
  assumes "\<forall>c\<in>set hd64. c \<noteq> dot \<and> \<not> isWhiteSpace c" and "\<forall>c\<in>set ct64. c \<noteq> dot \<and> \<not> isWhiteSpace c"
  defines "t \<equiv> js ''PASCO1.'' @ hd64 @ js ''.'' @ ct64"
  shows "trim t = t" "startsWith t (js ''PASCO1.'')" "split dot t = [js ''PASCO1'', hd64, ct64]"
proof -
  have ne: "t \<noteq> []" and h: "\<not> isWhiteSpace (hd t)"
    by (simp_all add: t_def js_def isWhiteSpace_def)
  have "last t = (if ct64 = [] then dot else last ct64)"
    by (simp add: t_def js_def dot_def)
  then have l: "\<not> isWhiteSpace (last t)"
    using assms(2) by (auto simp: dot_def isWhiteSpace_def)
  show "trim t = t" using ne h l by (rule trim_id)
  show "startsWith t (js ''PASCO1.'')" by (simp add: startsWith_def t_def js_def)
  have p: "dot \<notin> set (js ''PASCO1'')" by (simp add: js_def dot_def)
  have "t = js ''PASCO1'' @ dot # (hd64 @ dot # ct64)" by (simp add: t_def js_def dot_def)
  moreover have "dot \<notin> set hd64" "dot \<notin> set ct64" using assms(1,2) by blast+
  ultimately show "split dot t = [js ''PASCO1'', hd64, ct64]"
    using p by (simp add: split_append split_no_sep)
qed

subsection \<open>decryptToken, fingerprintFromToken and runDecrypt\<close>

lemma startsWith_nonempty: "startsWith s (js ''PASCO1.'') \<Longrightarrow> s \<noteq> []"
  by (auto simp: startsWith_def js_def)

lemma fingerprintFromToken_Inr:
  assumes "fingerprintFromToken h t = (ops, Inr fp)"
  shows "trim t \<noteq> [] \<and> ops = [OpDigest] \<and> fp \<noteq> js ''unknown''"
  using assms startsWith_nonempty [of "trim t"]
  by (auto simp: fingerprintFromToken_def Let_def sha256Hex_def hex_not_unknown
      split: if_splits option.splits)

lemma decryptToken_Inr_fingerprint:
  "decryptToken h t pw = (ops, Inr res) \<Longrightarrow>
   fingerprintFromToken h t = ([OpDigest], Inr (resultFingerprint res))"
  by (auto simp: decryptToken_def fingerprintFromToken_def Let_def sha256Hex_def deriveKey_def
      split: if_splits sum.splits option.splits prod.splits)

lemma decryptToken_WrongKey_fingerprint:
  "decryptToken h t pw = (ops, Inl WrongKeyOrCorrupted) \<Longrightarrow>
   \<exists>fp. fingerprintFromToken h t = ([OpDigest], Inr fp)"
  by (auto simp: decryptToken_def fingerprintFromToken_def Let_def sha256Hex_def deriveKey_def
      unpackHeader_def split: if_splits sum.splits option.splits prod.splits)

lemma runDecrypt_failure:
  assumes pw: "trim pw \<noteq> []"
    and fail: "decryptToken h tok pw = (ops, Inl e)"
    and fp: "fingerprintFromToken h tok = (ops', Inr fp)"
  shows "runDecrypt h stored shown tok pw =
     \<lparr>attempts = stored(fp \<mapsto> used stored fp + 1),
      message = (if maxAttempts - (used stored fp + 1) \<le> 0 then WrongKeyLocked
                 else WrongKeyAttemptsLeft (maxAttempts - (used stored fp + 1))),
      decryptedText = [], decryptedFileBytes = None, cryptoCalls = ops @ ops'\<rparr>"
proof -
  from fp have ne: "trim tok \<noteq> []" and unk: "fp \<noteq> js ''unknown''"
    using fingerprintFromToken_Inr by blast+
  show ?thesis
    using pw ne unk fail fp
    by (simp add: runDecrypt_def Let_def decryptToken_trim fingerprintFromToken_trim)
qed

lemma runDecrypt_success:
  assumes pw: "trim pw \<noteq> []"
    and ok: "decryptToken h tok pw = (ops, Inr res)"
  shows "runDecrypt h stored shown tok pw =
     (if used stored (resultFingerprint res) \<ge> maxAttempts then
        \<lparr>attempts = stored, message = Locked, decryptedText = [],
         decryptedFileBytes = None, cryptoCalls = ops\<rparr>
      else (case res of
        TextResult header t fp \<Rightarrow>
          \<lparr>attempts = stored(fp \<mapsto> 0), message = DecryptedSuccessfully, decryptedText = t,
           decryptedFileBytes = None, cryptoCalls = ops\<rparr>
      | FileResult header bs fp \<Rightarrow>
          \<lparr>attempts = stored(fp \<mapsto> 0), message = FileDecryptedSuccessfully,
           decryptedText = [], decryptedFileBytes = Some bs, cryptoCalls = ops\<rparr>))"
proof -
  from ok have "fingerprintFromToken h tok = ([OpDigest], Inr (resultFingerprint res))"
    by (rule decryptToken_Inr_fingerprint)
  then have ne: "trim tok \<noteq> []" using fingerprintFromToken_Inr by blast
  show ?thesis
    using pw ne ok by (simp add: runDecrypt_def Let_def decryptToken_trim)
qed

lemma runDecrypt_no_fingerprint:
  assumes "snd (fingerprintFromToken h tok) = Inl e'"
  shows "attempts (runDecrypt h stored shown tok pw) = stored"
proof -
  obtain ops' where f: "fingerprintFromToken h (trim tok) = (ops', Inl e')"
    using assms by (metis prod.collapse fingerprintFromToken_trim)
  obtain ops r where d: "decryptToken h (trim tok) pw = (ops, r)"
    by (cases "decryptToken h (trim tok) pw")
  show ?thesis
  proof (cases r)
    case (Inl e)
    with d f show ?thesis by (simp add: runDecrypt_def Let_def)
  next
    case (Inr res)
    with d have "decryptToken h (trim tok) pw = (ops, Inr res)" by simp
    from decryptToken_Inr_fingerprint [OF this] f show ?thesis by simp
  qed
qed



lemma runAttempts_wrong:
  assumes fp: "fingerprintFromToken h tok = (ops', Inr fp)"
    and wrong: "\<forall>pw\<in>set pws. trim pw \<noteq> [] \<and> snd (decryptToken h tok pw) = Inl WrongKeyOrCorrupted"
  shows "used (runAttempts h stored shown tok pws) fp = used stored fp + length pws"
  using wrong
proof (induction pws arbitrary: stored shown)
  case Nil
  then show ?case by simp
next
  case (Cons pw pws)
  then have pw: "trim pw \<noteq> []" and "snd (decryptToken h tok pw) = Inl WrongKeyOrCorrupted"
    by simp_all
  then obtain ops where "decryptToken h tok pw = (ops, Inl WrongKeyOrCorrupted)"
    by (metis prod.collapse)
  with pw fp have "attempts (runDecrypt h stored shown tok pw) = stored(fp \<mapsto> used stored fp + 1)"
    by (simp add: runDecrypt_failure)
  then have "used (attempts (runDecrypt h stored shown tok pw)) fp = used stored fp + 1"
    by (simp add: used_def)
  with Cons show ?case by simp
qed

subsection \<open>UTF-8\<close>

lemma surrogate_uint:
  "isLeadSurrogate c \<longleftrightarrow> 0xD800 \<le> uint c \<and> uint c < 0xDC00"
  "isTrailSurrogate c \<longleftrightarrow> 0xDC00 \<le> uint c \<and> uint c < 0xE000"
  by (simp_all add: isLeadSurrogate_def isTrailSurrogate_def word_le_def word_less_def)

lemma uint_code_unit: "0 \<le> uint (c :: code_unit)" "uint (c :: code_unit) < 0x10000"
  using uint_lt2p [of c] by simp_all

lemma scalarValues_scalar: "cp \<in> set (scalarValues s) \<Longrightarrow> isScalar cp"
proof (induction s arbitrary: cp rule: scalarValues.induct)
  case 1
  then show ?case by simp
next
  case (2 c)
  then show ?case
    using uint_code_unit [of c] by (auto simp: isScalar_def surrogate_uint split: if_splits)
next
  case (3 c d cs)
  then show ?case
    using uint_code_unit [of c] uint_code_unit [of d]
    by (auto simp: isScalar_def surrogate_uint split: if_splits)
qed

lemma utf8Bytes_range: "isScalar cp \<Longrightarrow> b \<in> set (utf8Bytes cp) \<Longrightarrow> 0 \<le> b \<and> b < 256"
  by (auto simp: utf8Bytes_def isScalar_def split: if_splits)

lemma utf8Decoder_ascii:
  "0 \<le> cp \<Longrightarrow> cp < 0x80 \<Longrightarrow> utf8Decoder utf8Idle (cp # rest) = cp # utf8Decoder utf8Idle rest"
  by (simp add: utf8Step_def utf8Idle_def)

lemma mod_offset: "0 \<le> (r::int) \<Longrightarrow> r < m \<Longrightarrow> (k * m + r) mod m = r"
  by simp

lemma utf8Decoder_two:
  assumes "2 \<le> q" "q \<le> 31" "0 \<le> r" "r < 64"
  shows "utf8Decoder utf8Idle ((0xC0 + q) # (0x80 + r) # rest)
           = (q * 0x40 + r) # utf8Decoder utf8Idle rest"
proof -
  have m: "(0xC0 + q) mod 0x20 = q" "(0x80 + r) mod 0x40 = r"
    using assms mod_offset [of q 32 6] mod_offset [of r 64 2] by simp_all
  have s1: "utf8Step utf8Idle (0xC0 + q) = ([], (q, Suc 0, 0x80, 0xBF))"
    using assms by (simp add: utf8Step_def utf8Idle_def m)
  have s2: "utf8Step (q, Suc 0, 0x80, 0xBF) (0x80 + r) = ([q * 0x40 + r], utf8Idle)"
    using assms by (simp add: utf8Step_def m)
  show ?thesis by (simp only: utf8Decoder.simps s1 s2 prod.case append.simps)
qed

lemma utf8Decoder_three:
  assumes "0 \<le> p" "p \<le> 15" "0 \<le> q" "q < 64" "0 \<le> r" "r < 64"
    and "p = 0 \<longrightarrow> 32 \<le> q" and "p = 13 \<longrightarrow> q < 32"
  shows "utf8Decoder utf8Idle ((0xE0 + p) # (0x80 + q) # (0x80 + r) # rest)
           = ((p * 0x40 + q) * 0x40 + r) # utf8Decoder utf8Idle rest"
proof -
  have m: "(0xE0 + p) mod 0x10 = p" "(0x80 + q) mod 0x40 = q" "(0x80 + r) mod 0x40 = r"
    using assms mod_offset [of p 16 14] mod_offset [of q 64 2] mod_offset [of r 64 2] by simp_all
  have s1: "utf8Step utf8Idle (0xE0 + p)
      = ([], (p, 2, if p = 0 then 0xA0 else 0x80, if p = 13 then 0x9F else 0xBF))"
    using assms by (simp add: utf8Step_def utf8Idle_def m)
  have s2: "utf8Step (p, 2, if p = 0 then 0xA0 else 0x80, if p = 13 then 0x9F else 0xBF) (0x80 + q)
      = ([], (p * 0x40 + q, Suc 0, 0x80, 0xBF))"
    using assms by (auto simp add: utf8Step_def m)
  have s3: "utf8Step (p * 0x40 + q, Suc 0, 0x80, 0xBF) (0x80 + r) = ([(p * 0x40 + q) * 0x40 + r], utf8Idle)"
    using assms by (simp add: utf8Step_def m)
  show ?thesis by (simp only: utf8Decoder.simps s1 s2 s3 prod.case append.simps)
qed

lemma utf8Decoder_four:
  assumes "0 \<le> o'" "o' \<le> 4" "0 \<le> p" "p < 64" "0 \<le> q" "q < 64" "0 \<le> r" "r < 64"
    and "o' = 0 \<longrightarrow> 16 \<le> p" and "o' = 4 \<longrightarrow> p < 16"
  shows "utf8Decoder utf8Idle ((0xF0 + o') # (0x80 + p) # (0x80 + q) # (0x80 + r) # rest)
           = (((o' * 0x40 + p) * 0x40 + q) * 0x40 + r) # utf8Decoder utf8Idle rest"
proof -
  have m: "(0xF0 + o') mod 0x8 = o'" "(0x80 + p) mod 0x40 = p" "(0x80 + q) mod 0x40 = q"
    "(0x80 + r) mod 0x40 = r"
    using assms mod_offset [of o' 8 30] mod_offset [of p 64 2] mod_offset [of q 64 2]
      mod_offset [of r 64 2] by simp_all
  have s1: "utf8Step utf8Idle (0xF0 + o')
      = ([], (o', 3, if o' = 0 then 0x90 else 0x80, if o' = 4 then 0x8F else 0xBF))"
    using assms by (simp add: utf8Step_def utf8Idle_def m)
  have s2: "utf8Step (o', 3, if o' = 0 then 0x90 else 0x80, if o' = 4 then 0x8F else 0xBF) (0x80 + p)
      = ([], (o' * 0x40 + p, 2, 0x80, 0xBF))"
    using assms by (auto simp add: utf8Step_def m)
  have s3: "utf8Step (o' * 0x40 + p, 2, 0x80, 0xBF) (0x80 + q)
      = ([], ((o' * 0x40 + p) * 0x40 + q, Suc 0, 0x80, 0xBF))"
    using assms by (simp add: utf8Step_def m)
  have s4: "utf8Step ((o' * 0x40 + p) * 0x40 + q, Suc 0, 0x80, 0xBF) (0x80 + r)
      = ([((o' * 0x40 + p) * 0x40 + q) * 0x40 + r], utf8Idle)"
    using assms by (simp add: utf8Step_def m)
  show ?thesis by (simp only: utf8Decoder.simps s1 s2 s3 s4 prod.case append.simps)
qed

lemma utf8Decoder_utf8Bytes:
  assumes "isScalar cp"
  shows "utf8Decoder utf8Idle (utf8Bytes cp @ rest) = cp # utf8Decoder utf8Idle rest"
proof -
  from assms have sc: "0 \<le> cp" "cp < 0x110000" "cp < 0xD800 \<or> 0xE000 \<le> cp"
    by (simp_all add: isScalar_def)
  define r where "r = cp mod 0x40"
  define x where "x = cp div 0x40"
  define q where "q = x mod 0x40"
  define y where "y = x div 0x40"
  define p where "p = y mod 0x40"
  define z where "z = y div 0x40"
  have e1: "cp = x * 0x40 + r" "0 \<le> r" "r < 0x40" by (simp_all add: r_def x_def)
  have e2: "x = y * 0x40 + q" "0 \<le> q" "q < 0x40" by (simp_all add: q_def y_def)
  have e3: "y = z * 0x40 + p" "0 \<le> p" "p < 0x40" by (simp_all add: p_def z_def)
  have d2: "cp div 0x1000 = y"
    unfolding y_def x_def using zdiv_zmult2_eq [where a = cp and b = "0x40" and c = "0x40"] by simp
  have d3: "cp div 0x40000 = z"
    unfolding z_def y_def x_def
    using zdiv_zmult2_eq [where a = cp and b = "0x40" and c = "0x40"]
      zdiv_zmult2_eq [where a = cp and b = "0x1000" and c = "0x40"] by simp
  have b: "utf8Bytes cp =
     (if cp < 0x80 then [cp]
      else if cp < 0x800 then [0xC0 + x, 0x80 + r]
      else if cp < 0x10000 then [0xE0 + y, 0x80 + q, 0x80 + r]
      else [0xF0 + z, 0x80 + p, 0x80 + q, 0x80 + r])"
    unfolding utf8Bytes_def d2 d3 by (simp add: r_def x_def q_def y_def p_def)
  consider "cp < 0x80" | "0x80 \<le> cp" "cp < 0x800" | "0x800 \<le> cp" "cp < 0x10000" | "0x10000 \<le> cp"
    by linarith
  then show ?thesis
  proof cases
    case 1
    then have "utf8Bytes cp @ rest = cp # rest" by (simp add: b)
    then show ?thesis using utf8Decoder_ascii [OF sc(1) 1] by (simp only:)
  next
    case 2
    have bx: "2 \<le> x" "x \<le> 31" using 2 e1 by linarith+
    have "utf8Bytes cp @ rest = (0xC0 + x) # (0x80 + r) # rest" using 2 by (simp add: b)
    moreover have "x * 0x40 + r = cp" using e1 by simp
    ultimately show ?thesis using utf8Decoder_two [OF bx e1(2) e1(3), of rest] by (simp only:)
  next
    case 3
    have z0: "z = 0" using 3 sc e1 e2 e3 by linarith
    have by': "0 \<le> y" "y \<le> 15" using 3 e1 e2 by linarith+
    have c1: "y = 0 \<longrightarrow> 32 \<le> q" using 3 e1 e2 by linarith
    have c2: "y = 13 \<longrightarrow> q < 32" using 3 sc e1 e2 by linarith
    have "utf8Bytes cp @ rest = (0xE0 + y) # (0x80 + q) # (0x80 + r) # rest" using 3 by (simp add: b)
    moreover have "(y * 0x40 + q) * 0x40 + r = cp" using e1 e2 by simp
    ultimately show ?thesis
      using utf8Decoder_three [OF by' e2(2) e2(3) e1(2) e1(3) c1 c2, of rest] by (simp only:)
  next
    case 4
    have bz: "0 \<le> z" "z \<le> 4" using 4 sc e1 e2 e3 by linarith+
    have c1: "z = 0 \<longrightarrow> 16 \<le> p" using 4 e1 e2 e3 by linarith
    have c2: "z = 4 \<longrightarrow> p < 16" using 4 sc e1 e2 e3 by linarith
    have "utf8Bytes cp @ rest = (0xF0 + z) # (0x80 + p) # (0x80 + q) # (0x80 + r) # rest"
      using 4 by (simp add: b)
    moreover have "((z * 0x40 + p) * 0x40 + q) * 0x40 + r = cp" using e1 e2 e3 by simp
    ultimately show ?thesis
      using utf8Decoder_four [OF bz e3(2) e3(3) e2(2) e2(3) e1(2) e1(3) c1 c2, of rest]
      by (simp only:)
  qed
qed

lemma utf8Decoder_concat:
  assumes "\<forall>cp\<in>set cps. isScalar cp"
  shows "utf8Decoder utf8Idle (concat (map utf8Bytes cps)) = cps"
  using assms
proof (induction cps)
  case Nil
  show ?case by (simp add: utf8Idle_def)
next
  case (Cons cp cps)
  then have "isScalar cp" and "utf8Decoder utf8Idle (concat (map utf8Bytes cps)) = cps" by simp_all
  then show ?case using utf8Decoder_utf8Bytes [of cp "concat (map utf8Bytes cps)"] by simp
qed

lemma uint_byte_of_int:
  assumes "\<forall>b\<in>set bs. 0 \<le> b \<and> b < 256"
  shows "map uint (map word_of_int bs :: byte list) = bs"
  using assms
proof (induction bs)
  case Nil
  show ?case by simp
next
  case (Cons b bs)
  then have "0 \<le> b" "b < 256" by simp_all
  then have "uint (word_of_int b :: byte) = b" by (simp add: uint_word_of_int take_bit_eq_mod)
  with Cons show ?case by simp
qed

lemma utf8Decoder_textEncoderEncode:
  "utf8Decoder utf8Idle (map uint (textEncoderEncode s)) = scalarValues s"
proof -
  have sc: "\<forall>cp\<in>set (scalarValues s). isScalar cp" using scalarValues_scalar by blast
  then have "\<forall>b\<in>set (concat (map utf8Bytes (scalarValues s))). 0 \<le> b \<and> b < 256"
    using utf8Bytes_range by auto
  then have "map uint (textEncoderEncode s) = concat (map utf8Bytes (scalarValues s))"
    unfolding textEncoderEncode_def by (rule uint_byte_of_int)
  with sc show ?thesis by (simp add: utf8Decoder_concat)
qed

lemma utf16Units_scalarValues:
  "wellFormedUtf16 s \<Longrightarrow> concat (map utf16Units (scalarValues s)) = s"
proof (induction s rule: scalarValues.induct)
  case 1
  show ?case by simp
next
  case (2 c)
  then show ?case using uint_code_unit [of c] by (simp add: utf16Units_def)
next
  case (3 c d cs)
  show ?case
  proof (cases "isLeadSurrogate c \<and> isTrailSurrogate d")
    case True
    then have c: "0xD800 \<le> uint c" "uint c < 0xDC00" and d: "0xDC00 \<le> uint d" "uint d < 0xE000"
      by (simp_all add: surrogate_uint)
    define a where "a = uint c - 0xD800"
    define b where "b = uint d - 0xDC00"
    define k where "k = a * 0x400 + b"
    have b: "0 \<le> b" "b < 0x400" using d by (simp_all add: b_def)
    have "k div 0x400 = a" "k mod 0x400 = b" unfolding k_def using b by simp_all
    then have k: "k div 0x400 = uint c - 0xD800" "k mod 0x400 = uint d - 0xDC00"
      by (simp_all add: a_def b_def)
    have k_def: "k = (uint c - 0xD800) * 0x400 + (uint d - 0xDC00)"
      by (simp add: k_def a_def b_def)
    have "utf16Units (0x10000 + k) = [word_of_int (0xD800 + k div 0x400), word_of_int (0xDC00 + k mod 0x400)]"
      using c d by (simp add: utf16Units_def k_def)
    then have "utf16Units (0x10000 + k) = [c, d]" by (simp add: k)
    moreover have "wellFormedUtf16 cs" using "3.prems" True by simp
    ultimately show ?thesis using True "3.IH"(1) by (simp add: k_def)
  next
    case False
    then have w: "\<not> isLeadSurrogate c" "\<not> isTrailSurrogate c" "wellFormedUtf16 (d # cs)"
      using "3.prems" by auto
    have "utf16Units (uint c) = [c]" using uint_code_unit [of c] by (simp add: utf16Units_def)
    then show ?thesis using False w "3.IH"(2) by simp
  qed
qed

lemma uint_not_BOM: "(c :: code_unit) \<noteq> 0xFEFF \<Longrightarrow> uint c \<noteq> 0xFEFF"
proof
  assume n: "c \<noteq> 0xFEFF" and u: "uint c = 0xFEFF"
  have "c = word_of_int (uint c)" by simp
  also have "\<dots> = 0xFEFF" unfolding u by simp
  finally show False using n by simp
qed

lemma dropBOM_scalarValues:
  "\<not> startsWithBOM s \<Longrightarrow> dropBOM (scalarValues s) = scalarValues s"
proof (cases s rule: scalarValues.cases)
  case 1
  then show ?thesis by (simp add: dropBOM_def)
next
  case (2 c)
  assume "\<not> startsWithBOM s"
  then have "c \<noteq> 0xFEFF" using 2 by (simp add: startsWithBOM_def)
  then have "uint c \<noteq> 0xFEFF" by (rule uint_not_BOM)
  then show ?thesis using 2 by (simp add: dropBOM_def)
next
  case (3 c d cs)
  assume "\<not> startsWithBOM s"
  then have "c \<noteq> 0xFEFF" using 3 by (simp add: startsWithBOM_def)
  then have n: "uint c \<noteq> 0xFEFF" by (rule uint_not_BOM)
  have "0xD800 \<le> uint c" if "isLeadSurrogate c" using that by (simp add: surrogate_uint)
  moreover have "0xDC00 \<le> uint d" if "isTrailSurrogate d" using that by (simp add: surrogate_uint)
  ultimately show ?thesis using 3 n by (auto simp: dropBOM_def)
qed

lemma text_roundtrip:
  assumes "wellFormedUtf16 s" and "\<not> startsWithBOM s"
  shows "textDecoderDecode (textEncoderEncode s) = s"
  using assms
  by (simp add: textDecoderDecode_def utf8Decoder_textEncoderEncode dropBOM_scalarValues utf16Units_scalarValues)

subsection \<open>Tokens built by the encrypt functions\<close>

lemma unpackHeader_packHeader:
  assumes "json_parse h (utf8Decode (utf8Encode (json_stringify h header))) = Some header"
  shows "unpackHeader h (packHeader h header) = Inr header"
  using assms by (simp add: unpackHeader_def packHeader_def fromB64Url_toB64Url)

lemma decryptToken_built_token:
  assumes avail: "subtle_available h"
    and v: "getProp header (js ''v'') = Some (JNum (Finite 1))"
    and alg: "getProp header (js ''alg'') = Some (JStr (js ''AES-256-GCM''))"
    and kdf: "getProp header (js ''kdf'') = Some (JStr (js ''PBKDF2-SHA256''))"
    and salt: "getProp header (js ''salt'') = Some (JStr (toB64Url salt))"
    and iv: "getProp header (js ''iv'') = Some (JStr (toB64Url iv))"
    and json: "json_parse h (utf8Decode (utf8Encode (json_stringify h header))) = Some header"
    and key: "subtle_deriveKey h (textEncoderEncode pw) salt (getProp header (js ''iter'')) = Some key"
    and auth: "subtle_decrypt h key iv ctBytes = Some pt"
  shows "decryptToken h (js ''PASCO1.'' @ packHeader h header @ js ''.'' @ toB64Url ctBytes) pw =
     ([OpDeriveKey (getProp header (js ''iter'')), OpDecrypt, OpDigest],
      Inr (if getProp header (js ''kind'') = Some (JStr (js ''text''))
           then TextResult header (utf8Decode pt) (concat (map byteHex (subtle_digest h ctBytes)))
           else FileResult header pt (concat (map byteHex (subtle_digest h ctBytes)))))"
proof -
  let ?t = "js ''PASCO1.'' @ packHeader h header @ js ''.'' @ toB64Url ctBytes"
  have c1: "\<forall>c\<in>set (packHeader h header). c \<noteq> dot \<and> \<not> isWhiteSpace c"
    unfolding packHeader_def using toB64Url_chars by blast
  have c2: "\<forall>c\<in>set (toB64Url ctBytes). c \<noteq> dot \<and> \<not> isWhiteSpace c"
    using toB64Url_chars by blast
  note shape = token_shape [OF c1 c2]
  have u: "unpackHeader h (packHeader h header) = Inr header"
    using json by (rule unpackHeader_packHeader)
  from v have nn: "header \<noteq> JNull" by auto
  show ?thesis
    using avail v alg kdf salt iv key auth nn
    by (simp add: decryptToken_def shape u Let_def fromB64Url_toB64Url deriveKey_def sha256Hex_def)
qed

lemma header_keys:
  "js ''v'' \<noteq> js ''alg''" "js ''v'' \<noteq> js ''kdf''" "js ''v'' \<noteq> js ''iter''" "js ''v'' \<noteq> js ''salt''"
  "js ''v'' \<noteq> js ''iv''" "js ''v'' \<noteq> js ''createdAt''" "js ''v'' \<noteq> js ''kind''"
  "js ''alg'' \<noteq> js ''kdf''" "js ''alg'' \<noteq> js ''iter''" "js ''alg'' \<noteq> js ''salt''"
  "js ''alg'' \<noteq> js ''iv''" "js ''alg'' \<noteq> js ''createdAt''" "js ''alg'' \<noteq> js ''kind''"
  "js ''kdf'' \<noteq> js ''iter''" "js ''kdf'' \<noteq> js ''salt''" "js ''kdf'' \<noteq> js ''iv''"
  "js ''kdf'' \<noteq> js ''createdAt''" "js ''kdf'' \<noteq> js ''kind''"
  "js ''iter'' \<noteq> js ''salt''" "js ''iter'' \<noteq> js ''iv''" "js ''iter'' \<noteq> js ''createdAt''"
  "js ''iter'' \<noteq> js ''kind''" "js ''salt'' \<noteq> js ''iv''" "js ''salt'' \<noteq> js ''createdAt''"
  "js ''salt'' \<noteq> js ''kind''" "js ''iv'' \<noteq> js ''createdAt''" "js ''iv'' \<noteq> js ''kind''"
  "js ''createdAt'' \<noteq> js ''kind''"
  "js ''filename'' \<noteq> js ''v''" "js ''filename'' \<noteq> js ''alg''" "js ''filename'' \<noteq> js ''kdf''"
  "js ''filename'' \<noteq> js ''iter''" "js ''filename'' \<noteq> js ''salt''" "js ''filename'' \<noteq> js ''iv''"
  "js ''filename'' \<noteq> js ''createdAt''" "js ''filename'' \<noteq> js ''kind''"
  "js ''mime'' \<noteq> js ''v''" "js ''mime'' \<noteq> js ''alg''" "js ''mime'' \<noteq> js ''kdf''"
  "js ''mime'' \<noteq> js ''iter''" "js ''mime'' \<noteq> js ''salt''" "js ''mime'' \<noteq> js ''iv''"
  "js ''mime'' \<noteq> js ''createdAt''" "js ''mime'' \<noteq> js ''kind''" "js ''mime'' \<noteq> js ''filename''"
  "js ''size'' \<noteq> js ''v''" "js ''size'' \<noteq> js ''alg''" "js ''size'' \<noteq> js ''kdf''"
  "js ''size'' \<noteq> js ''iter''" "js ''size'' \<noteq> js ''salt''" "js ''size'' \<noteq> js ''iv''"
  "js ''size'' \<noteq> js ''createdAt''" "js ''size'' \<noteq> js ''kind''" "js ''size'' \<noteq> js ''filename''"
  "js ''size'' \<noteq> js ''mime''"
  "js ''text'' \<noteq> js ''file''"
  by (simp_all add: js_def)

lemma clamp_cases:
  "mathMax (Finite 50000) (mathMin (Finite 600000) x) =
     (case x of
        Finite q \<Rightarrow> Finite (max 50000 (min 600000 q))
      | PosInfinity \<Rightarrow> Finite 600000
      | NegInfinity \<Rightarrow> Finite 50000
      | NaN \<Rightarrow> NaN)"
  by (cases x) (auto simp: mathMax_def mathMin_def)

lemma subtle_deriveKey_Finite:
  assumes "50000 \<le> q" and "q \<le> 600000"
  shows "subtle_deriveKey h pw salt (Some (JNum (Finite q))) = subtle_pbkdf2 h pw salt \<lfloor>q\<rfloor>"
    and "50000 \<le> \<lfloor>q\<rfloor>" and "\<lfloor>q\<rfloor> \<le> 600000"
proof -
  show lo: "50000 \<le> \<lfloor>q\<rfloor>" using assms(1) by (simp add: le_floor_iff)
  show hi: "\<lfloor>q\<rfloor> \<le> 600000" using assms(2) by (simp add: floor_le_iff)
  from lo hi assms show "subtle_deriveKey h pw salt (Some (JNum (Finite q))) = subtle_pbkdf2 h pw salt \<lfloor>q\<rfloor>"
    by (simp add: subtle_deriveKey_def Let_def)
qed

lemma subtle_deriveKey_NaN: "subtle_deriveKey h pw salt (Some (JNum NaN)) = None"
  by (simp add: subtle_deriveKey_def)

lemma encryptText_Inr:
  assumes "encryptText h rnd now txt opts = (ops, Inr r)"
  shows "subtle_available h \<and> (\<exists>key ctBytes.
      subtle_deriveKey h (textEncoderEncode (opt_password opts)) (fst (getRandomValues rnd 16))
        (Some (JNum (mathMax (Finite 50000) (mathMin (Finite 600000)
           (case opt_iterations opts of None \<Rightarrow> Finite 220000 | Some n \<Rightarrow> n))))) = Some key
    \<and> subtle_encrypt h key (fst (getRandomValues (snd (getRandomValues rnd 16)) 12)) (utf8Encode txt)
        = Some ctBytes
    \<and> ops = [OpDeriveKey (Some (JNum (mathMax (Finite 50000) (mathMin (Finite 600000)
           (case opt_iterations opts of None \<Rightarrow> Finite 220000 | Some n \<Rightarrow> n))))), OpEncrypt, OpDigest]
    \<and> r = \<lparr>enc_token = js ''PASCO1.''
                  @ packHeader h (JObj ([(js ''v'', JNum (Finite 1)),
                       (js ''alg'', JStr (js ''AES-256-GCM'')),
                       (js ''kdf'', JStr (js ''PBKDF2-SHA256'')),
                       (js ''iter'', JNum (mathMax (Finite 50000) (mathMin (Finite 600000)
                          (case opt_iterations opts of None \<Rightarrow> Finite 220000 | Some n \<Rightarrow> n)))),
                       (js ''salt'', JStr (toB64Url (fst (getRandomValues rnd 16)))),
                       (js ''iv'', JStr (toB64Url (fst (getRandomValues (snd (getRandomValues rnd 16)) 12)))),
                       (js ''createdAt'', JStr now),
                       (js ''kind'', JStr (js ''text''))]
                      @ noteProperty (opt_note opts)))
                  @ js ''.'' @ toB64Url ctBytes,
             enc_header = JObj ([(js ''v'', JNum (Finite 1)),
                       (js ''alg'', JStr (js ''AES-256-GCM'')),
                       (js ''kdf'', JStr (js ''PBKDF2-SHA256'')),
                       (js ''iter'', JNum (mathMax (Finite 50000) (mathMin (Finite 600000)
                          (case opt_iterations opts of None \<Rightarrow> Finite 220000 | Some n \<Rightarrow> n)))),
                       (js ''salt'', JStr (toB64Url (fst (getRandomValues rnd 16)))),
                       (js ''iv'', JStr (toB64Url (fst (getRandomValues (snd (getRandomValues rnd 16)) 12)))),
                       (js ''createdAt'', JStr now),
                       (js ''kind'', JStr (js ''text''))]
                      @ noteProperty (opt_note opts)),
             enc_fingerprint = concat (map byteHex (subtle_digest h ctBytes))\<rparr>)"
proof -
  let ?n = "mathMax (Finite 50000) (mathMin (Finite 600000) (case opt_iterations opts of None \<Rightarrow> Finite 220000 | Some n \<Rightarrow> n))"
  let ?salt = "fst (getRandomValues rnd 16)"
  let ?iv = "fst (getRandomValues (snd (getRandomValues rnd 16)) 12)"
  have avail: "subtle_available h"
    using assms by (cases "subtle_available h") (simp_all add: encryptText_def)
  show ?thesis
  proof (cases "subtle_deriveKey h (textEncoderEncode (opt_password opts)) ?salt (Some (JNum ?n))")
    case None
    with assms avail show ?thesis
      by (simp add: encryptText_def Let_def split_beta deriveKey_def)
  next
    case (Some key)
    note key = this
    show ?thesis
    proof (cases "subtle_encrypt h key ?iv (utf8Encode txt)")
      case None
      with assms avail key show ?thesis
        by (simp add: encryptText_def Let_def split_beta deriveKey_def)
    next
      case (Some ctBytes)
      with assms avail key show ?thesis
        by (simp add: encryptText_def Let_def split_beta deriveKey_def sha256Hex_def)
    qed
  qed
qed

lemma encryptFile_Inr:
  assumes "encryptFile h rnd now file opts = (ops, Inr r)"
  shows "subtle_available h \<and> (\<exists>key ctBytes.
      subtle_deriveKey h (textEncoderEncode (opt_password opts)) (fst (getRandomValues rnd 16))
        (Some (JNum (mathMax (Finite 50000) (mathMin (Finite 600000)
           (case opt_iterations opts of None \<Rightarrow> Finite 260000 | Some n \<Rightarrow> n))))) = Some key
    \<and> subtle_encrypt h key (fst (getRandomValues (snd (getRandomValues rnd 16)) 12)) (file_bytes file)
        = Some ctBytes
    \<and> ops = [OpDeriveKey (Some (JNum (mathMax (Finite 50000) (mathMin (Finite 600000)
           (case opt_iterations opts of None \<Rightarrow> Finite 260000 | Some n \<Rightarrow> n))))), OpEncrypt, OpDigest]
    \<and> r = \<lparr>enc_token = js ''PASCO1.''
                  @ packHeader h (JObj ([(js ''v'', JNum (Finite 1)),
                       (js ''alg'', JStr (js ''AES-256-GCM'')),
                       (js ''kdf'', JStr (js ''PBKDF2-SHA256'')),
                       (js ''iter'', JNum (mathMax (Finite 50000) (mathMin (Finite 600000)
                          (case opt_iterations opts of None \<Rightarrow> Finite 260000 | Some n \<Rightarrow> n)))),
                       (js ''salt'', JStr (toB64Url (fst (getRandomValues rnd 16)))),
                       (js ''iv'', JStr (toB64Url (fst (getRandomValues (snd (getRandomValues rnd 16)) 12)))),
                       (js ''createdAt'', JStr now),
                       (js ''kind'', JStr (js ''file'')),
                       (js ''filename'', JStr (file_name file)),
                       (js ''mime'', JStr (if file_type file = [] then js ''application/octet-stream''
                                           else file_type file)),
                       (js ''size'', JNum (Finite (of_nat (length (file_bytes file)))))]
                      @ noteProperty (opt_note opts)))
                  @ js ''.'' @ toB64Url ctBytes,
             enc_header = JObj ([(js ''v'', JNum (Finite 1)),
                       (js ''alg'', JStr (js ''AES-256-GCM'')),
                       (js ''kdf'', JStr (js ''PBKDF2-SHA256'')),
                       (js ''iter'', JNum (mathMax (Finite 50000) (mathMin (Finite 600000)
                          (case opt_iterations opts of None \<Rightarrow> Finite 260000 | Some n \<Rightarrow> n)))),
                       (js ''salt'', JStr (toB64Url (fst (getRandomValues rnd 16)))),
                       (js ''iv'', JStr (toB64Url (fst (getRandomValues (snd (getRandomValues rnd 16)) 12)))),
                       (js ''createdAt'', JStr now),
                       (js ''kind'', JStr (js ''file'')),
                       (js ''filename'', JStr (file_name file)),
                       (js ''mime'', JStr (if file_type file = [] then js ''application/octet-stream''
                                           else file_type file)),
                       (js ''size'', JNum (Finite (of_nat (length (file_bytes file)))))]
                      @ noteProperty (opt_note opts)),
             enc_fingerprint = concat (map byteHex (subtle_digest h ctBytes))\<rparr>)"
proof -
  let ?n = "mathMax (Finite 50000) (mathMin (Finite 600000) (case opt_iterations opts of None \<Rightarrow> Finite 260000 | Some n \<Rightarrow> n))"
  let ?salt = "fst (getRandomValues rnd 16)"
  let ?iv = "fst (getRandomValues (snd (getRandomValues rnd 16)) 12)"
  have avail: "subtle_available h"
    using assms by (cases "subtle_available h") (simp_all add: encryptFile_def)
  show ?thesis
  proof (cases "subtle_deriveKey h (textEncoderEncode (opt_password opts)) ?salt (Some (JNum ?n))")
    case None
    with assms avail show ?thesis
      by (simp add: encryptFile_def Let_def split_beta deriveKey_def)
  next
    case (Some key)
    note key = this
    show ?thesis
    proof (cases "subtle_encrypt h key ?iv (file_bytes file)")
      case None
      with assms avail key show ?thesis
        by (simp add: encryptFile_def Let_def split_beta deriveKey_def)
    next
      case (Some ctBytes)
      with assms avail key show ?thesis
        by (simp add: encryptFile_def Let_def split_beta deriveKey_def sha256Hex_def)
    qed
  qed
qed

lemma encryptText_roundtrip:
  assumes enc: "encryptText h rnd now txt opts = (ops, Inr r)"
    and json: "json_parse h (utf8Decode (utf8Encode (json_stringify h (enc_header r))))
                 = Some (enc_header r)"
    and aead: "\<And>k iv pt ct. subtle_encrypt h k iv pt = Some ct \<Longrightarrow> subtle_decrypt h k iv ct = Some pt"
  shows "snd (decryptToken h (enc_token r) (opt_password opts)) =
     Inr (TextResult (enc_header r) (utf8Decode (utf8Encode txt)) (enc_fingerprint r))"
proof -
  let ?n = "mathMax (Finite 50000) (mathMin (Finite 600000) (case opt_iterations opts of None \<Rightarrow> Finite 220000 | Some n \<Rightarrow> n))"
  let ?salt = "fst (getRandomValues rnd 16)"
  let ?iv = "fst (getRandomValues (snd (getRandomValues rnd 16)) 12)"
  let ?header = "JObj ([(js ''v'', JNum (Finite 1)),
                                 (js ''alg'', JStr (js ''AES-256-GCM'')),
                                 (js ''kdf'', JStr (js ''PBKDF2-SHA256'')),
                                 (js ''iter'', JNum ?n),
                                 (js ''salt'', JStr (toB64Url ?salt)),
                                 (js ''iv'', JStr (toB64Url ?iv)),
                                 (js ''createdAt'', JStr now),
                                 (js ''kind'', JStr (js ''text''))]
                                @ noteProperty (opt_note opts))"
  obtain key ctBytes where
    avail: "subtle_available h"
    and key: "subtle_deriveKey h (textEncoderEncode (opt_password opts)) ?salt (Some (JNum ?n)) = Some key"
    and ct: "subtle_encrypt h key ?iv (utf8Encode txt) = Some ctBytes"
    and r: "r = \<lparr>enc_token = js ''PASCO1.'' @ packHeader h ?header @ js ''.'' @ toB64Url ctBytes,
                 enc_header = ?header,
                 enc_fingerprint = concat (map byteHex (subtle_digest h ctBytes))\<rparr>"
    using encryptText_Inr [OF enc] by blast
  have hd: "enc_header r = ?header" using r by simp
  have props: "getProp ?header (js ''v'') = Some (JNum (Finite 1))"
    "getProp ?header (js ''alg'') = Some (JStr (js ''AES-256-GCM''))"
    "getProp ?header (js ''kdf'') = Some (JStr (js ''PBKDF2-SHA256''))"
    "getProp ?header (js ''salt'') = Some (JStr (toB64Url ?salt))"
    "getProp ?header (js ''iv'') = Some (JStr (toB64Url ?iv))"
    "getProp ?header (js ''iter'') = Some (JNum ?n)"
    "getProp ?header (js ''kind'') = Some (JStr (js ''text''))"
    by (simp_all add: header_keys header_keys [symmetric])
  have auth: "subtle_decrypt h key ?iv ctBytes = Some (utf8Encode txt)"
    using ct by (rule aead)
  have key': "subtle_deriveKey h (textEncoderEncode (opt_password opts)) ?salt (getProp ?header (js ''iter''))
      = Some key" using key by (simp only: props)
  have json': "json_parse h (utf8Decode (utf8Encode (json_stringify h ?header))) = Some ?header"
    using json hd by simp
  from decryptToken_built_token [OF avail props(1,2,3,4,5) json' key' auth]
  show ?thesis unfolding r by (simp only: props) simp
qed

lemma encryptFile_roundtrip:
  assumes enc: "encryptFile h rnd now file opts = (ops, Inr r)"
    and json: "json_parse h (utf8Decode (utf8Encode (json_stringify h (enc_header r))))
                 = Some (enc_header r)"
    and aead: "\<And>k iv pt ct. subtle_encrypt h k iv pt = Some ct \<Longrightarrow> subtle_decrypt h k iv ct = Some pt"
  shows "snd (decryptToken h (enc_token r) (opt_password opts)) =
     Inr (FileResult (enc_header r) (file_bytes file) (enc_fingerprint r))"
    and "getProp (enc_header r) (js ''filename'') = Some (JStr (file_name file))"
    and "getProp (enc_header r) (js ''mime'') =
           Some (JStr (if file_type file = [] then js ''application/octet-stream'' else file_type file))"
    and "getProp (enc_header r) (js ''size'') = Some (JNum (Finite (of_nat (length (file_bytes file)))))"
proof -
  let ?n = "mathMax (Finite 50000) (mathMin (Finite 600000) (case opt_iterations opts of None \<Rightarrow> Finite 260000 | Some n \<Rightarrow> n))"
  let ?salt = "fst (getRandomValues rnd 16)"
  let ?iv = "fst (getRandomValues (snd (getRandomValues rnd 16)) 12)"
  let ?header = "JObj ([(js ''v'', JNum (Finite 1)),
                                 (js ''alg'', JStr (js ''AES-256-GCM'')),
                                 (js ''kdf'', JStr (js ''PBKDF2-SHA256'')),
                                 (js ''iter'', JNum ?n),
                                 (js ''salt'', JStr (toB64Url ?salt)),
                                 (js ''iv'', JStr (toB64Url ?iv)),
                                 (js ''createdAt'', JStr now),
                                 (js ''kind'', JStr (js ''file'')),
                                 (js ''filename'', JStr (file_name file)),
                                 (js ''mime'', JStr (if file_type file = [] then js ''application/octet-stream''
                                                     else file_type file)),
                                 (js ''size'', JNum (Finite (of_nat (length (file_bytes file)))))]
                                @ noteProperty (opt_note opts))"
  obtain key ctBytes where
    avail: "subtle_available h"
    and key: "subtle_deriveKey h (textEncoderEncode (opt_password opts)) ?salt (Some (JNum ?n)) = Some key"
    and ct: "subtle_encrypt h key ?iv (file_bytes file) = Some ctBytes"
    and r: "r = \<lparr>enc_token = js ''PASCO1.'' @ packHeader h ?header @ js ''.'' @ toB64Url ctBytes,
                 enc_header = ?header,
                 enc_fingerprint = concat (map byteHex (subtle_digest h ctBytes))\<rparr>"
    using encryptFile_Inr [OF enc] by blast
  have hd: "enc_header r = ?header" using r by simp
  have props: "getProp ?header (js ''v'') = Some (JNum (Finite 1))"
    "getProp ?header (js ''alg'') = Some (JStr (js ''AES-256-GCM''))"
    "getProp ?header (js ''kdf'') = Some (JStr (js ''PBKDF2-SHA256''))"
    "getProp ?header (js ''salt'') = Some (JStr (toB64Url ?salt))"
    "getProp ?header (js ''iv'') = Some (JStr (toB64Url ?iv))"
    "getProp ?header (js ''iter'') = Some (JNum ?n)"
    "getProp ?header (js ''kind'') = Some (JStr (js ''file''))"
    by (simp_all add: header_keys header_keys [symmetric])
  have meta: "getProp ?header (js ''filename'') = Some (JStr (file_name file))"
    "getProp ?header (js ''mime'') =
           Some (JStr (if file_type file = [] then js ''application/octet-stream'' else file_type file))"
    "getProp ?header (js ''size'') = Some (JNum (Finite (of_nat (length (file_bytes file)))))"
    by (simp_all add: header_keys header_keys [symmetric])
  have nt: "Some (JStr (js ''file'')) \<noteq> Some (JStr (js ''text''))"
    using header_keys by simp
  have auth: "subtle_decrypt h key ?iv ctBytes = Some (file_bytes file)"
    using ct by (rule aead)
  have key': "subtle_deriveKey h (textEncoderEncode (opt_password opts)) ?salt (getProp ?header (js ''iter''))
      = Some key" using key by (simp only: props)
  have json': "json_parse h (utf8Decode (utf8Encode (json_stringify h ?header))) = Some ?header"
    using json hd by simp
  from decryptToken_built_token [OF avail props(1,2,3,4,5) json' key' auth]
  show "snd (decryptToken h (enc_token r) (opt_password opts)) =
     Inr (FileResult (enc_header r) (file_bytes file) (enc_fingerprint r))"
    unfolding r using nt by (simp only: props) simp
  show "getProp (enc_header r) (js ''filename'') = Some (JStr (file_name file))"
    "getProp (enc_header r) (js ''mime'') =
           Some (JStr (if file_type file = [] then js ''application/octet-stream'' else file_type file))"
    "getProp (enc_header r) (js ''size'') = Some (JNum (Finite (of_nat (length (file_bytes file)))))"
    unfolding hd by (rule meta)+
qed

subsection \<open>The concrete host, evaluated\<close>

lemma demo_available: "subtle_available demoHost"
  by (simp add: demoHost_def)

lemma demo_aead:
  "subtle_encrypt demoHost k iv pt = Some ct \<Longrightarrow> subtle_decrypt demoHost k iv ct = Some pt"
  by (auto simp: demoHost_def)

lemma demo_inputs:
  "opt_password demoOptions = js ''pw''" "opt_iterations demoOptions = None"
  "file_bytes demoFile = [1, 2, 3]" "file_name demoFile = js ''a.bin''" "file_type demoFile = []"
  by (simp_all add: demoOptions_def demoFile_def)

lemma demo_passwords: "trim (js ''pw'') \<noteq> []" "trim (js ''no'') \<noteq> []"
  by code_simp+

lemma demo_json:
  "json_parse demoHost (utf8Decode (utf8Encode (json_stringify demoHost demoTextHeader)))
     = Some demoTextHeader"
  "json_parse demoHost (utf8Decode (utf8Encode (json_stringify demoHost demoFileHeader)))
     = Some demoFileHeader"
proof -
  have t: "utf8Decode (utf8Encode (js ''{text}'')) = js ''{text}''"
    and f: "utf8Decode (utf8Encode (js ''{file}'')) = js ''{file}''"
    by code_simp+
  have n: "demoFileHeader \<noteq> demoTextHeader" "js ''{file}'' \<noteq> js ''{text}''"
    by (simp_all add: demoFileHeader_def demoTextHeader_def js_def)
  show "json_parse demoHost (utf8Decode (utf8Encode (json_stringify demoHost demoTextHeader)))
     = Some demoTextHeader"
    by (simp add: demoHost_def t)
  show "json_parse demoHost (utf8Decode (utf8Encode (json_stringify demoHost demoFileHeader)))
     = Some demoFileHeader"
    by (simp add: demoHost_def f n)
qed

lemma demo_encryptText:
  "encryptText demoHost demoRandom demoNow (js ''hi'') demoOptions =
     ([OpDeriveKey (Some (JNum (Finite 220000))), OpEncrypt, OpDigest],
      Inr \<lparr>enc_token = demoToken, enc_header = demoTextHeader, enc_fingerprint = js ''04''\<rparr>)"
  by code_simp

lemma demo_encryptFile:
  "encryptFile demoHost demoRandom demoNow demoFile demoOptions =
     ([OpDeriveKey (Some (JNum (Finite 260000))), OpEncrypt, OpDigest],
      Inr \<lparr>enc_token = demoFileToken, enc_header = demoFileHeader, enc_fingerprint = js ''05''\<rparr>)"
  by code_simp

lemma demo_encryptMarked:
  "encryptText demoHost demoRandom demoNow [0xFEFF, 0x68, 0x69] demoOptions =
     ([OpDeriveKey (Some (JNum (Finite 220000))), OpEncrypt, OpDigest],
      Inr \<lparr>enc_token = demoMarkedToken, enc_header = demoTextHeader, enc_fingerprint = js ''07''\<rparr>)"
  by code_simp

lemma demo_encryptHalf:
  "encryptText demoHost demoRandom demoNow (js ''hi'')
     \<lparr>opt_password = js ''pw'', opt_note = None, opt_iterations = Some (Finite (200001 / 2))\<rparr> =
     ([OpDeriveKey (Some (JNum (Finite (200001 / 2)))), OpEncrypt, OpDigest],
      Inr \<lparr>enc_token = demoHalfToken, enc_header = demoHalfHeader, enc_fingerprint = js ''04''\<rparr>)"
  by code_simp

lemma demo_decryptToken:
  "decryptToken demoHost demoToken (js ''pw'') =
     ([OpDeriveKey (Some (JNum (Finite 220000))), OpDecrypt, OpDigest],
      Inr (TextResult demoTextHeader (js ''hi'') (js ''04'')))"
  by code_simp

lemma demo_decryptToken_wrong:
  "decryptToken demoHost demoToken (js ''no'') =
     ([OpDeriveKey (Some (JNum (Finite 220000))), OpDecrypt], Inl WrongKeyOrCorrupted)"
  by code_simp



section \<open>The claims\<close>

subsection \<open>Lockout\<close>




text \<open>
  C2. After five consecutive attempts with passwords that AES-GCM rejects (each a
  non-blank password), whatever the stored map and the display were before, a sixth attempt with a
  password that authenticates ends with the Locked message and displays nothing; and a
  successful decrypt of a fingerprint whose counter is below 5 stores 0 for it.
\<close>

theorem lockout_after_five:
  assumes wrong: "\<forall>pw\<in>set pws. trim pw \<noteq> [] \<and> snd (decryptToken h tok pw) = Inl WrongKeyOrCorrupted"
    and five: "length pws = 5"
    and good: "trim good \<noteq> []" "snd (decryptToken h tok good) = Inr res"
  shows "message (runDecrypt h (runAttempts h stored shown tok pws) shown' tok good) = Locked
       \<and> decryptedText (runDecrypt h (runAttempts h stored shown tok pws) shown' tok good) = []
       \<and> decryptedFileBytes (runDecrypt h (runAttempts h stored shown tok pws) shown' tok good) = None
       \<and> (used stored (resultFingerprint res) < maxAttempts \<longrightarrow>
            attempts (runDecrypt h stored shown tok good) (resultFingerprint res) = Some 0
          \<and> message (runDecrypt h stored shown tok good) \<in> {DecryptedSuccessfully, FileDecryptedSuccessfully})"
proof -
  obtain ops where ok: "decryptToken h tok good = (ops, Inr res)"
    using good(2) by (metis prod.collapse)
  then have fp: "fingerprintFromToken h tok = ([OpDigest], Inr (resultFingerprint res))"
    by (rule decryptToken_Inr_fingerprint)
  have "used (runAttempts h stored shown tok pws) (resultFingerprint res)
          = used stored (resultFingerprint res) + length pws"
    using fp wrong by (rule runAttempts_wrong)
  then have locked: "maxAttempts \<le> used (runAttempts h stored shown tok pws) (resultFingerprint res)"
    using five by (simp add: maxAttempts_def)
  have a: "runDecrypt h (runAttempts h stored shown tok pws) shown' tok good =
      \<lparr>attempts = runAttempts h stored shown tok pws, message = Locked, decryptedText = [],
         decryptedFileBytes = None, cryptoCalls = ops\<rparr>"
    using locked by (simp add: runDecrypt_success [OF good(1) ok])
  have b: "used stored (resultFingerprint res) < maxAttempts \<longrightarrow>
            attempts (runDecrypt h stored shown tok good) (resultFingerprint res) = Some 0
          \<and> message (runDecrypt h stored shown tok good) \<in> {DecryptedSuccessfully, FileDecryptedSuccessfully}"
    by (cases res) (simp_all add: runDecrypt_success [OF good(1) ok])
  from a b show ?thesis by simp
qed

theorem lockout_after_five_witness:
  "message (runDecrypt demoHost
       (runAttempts demoHost Map.empty ([], None) demoToken
          [js ''no'', js ''no'', js ''no'', js ''no'', js ''no''])
       ([], None) demoToken (js ''pw'')) = Locked
   \<and> attempts (runDecrypt demoHost Map.empty ([], None) demoToken (js ''pw'')) (js ''04'') = Some 0"
proof -
  have wrong: "\<forall>pw\<in>set [js ''no'', js ''no'', js ''no'', js ''no'', js ''no''].
      trim pw \<noteq> [] \<and> snd (decryptToken demoHost demoToken pw) = Inl WrongKeyOrCorrupted"
    using demo_decryptToken_wrong demo_passwords(2) by simp
  have five: "length [js ''no'', js ''no'', js ''no'', js ''no'', js ''no''] = 5" by simp
  have good: "snd (decryptToken demoHost demoToken (js ''pw'')) =
      Inr (TextResult demoTextHeader (js ''hi'') (js ''04''))"
    by (simp add: demo_decryptToken)
  from lockout_after_five [OF wrong five demo_passwords(1) good, of Map.empty "([], None)" "([], None)"]
  show ?thesis
    by (simp add: used_def maxAttempts_def)
qed

text \<open>
  C3 (the code departs from it). A token with the prefix and three segments whose
  header segment does not decode fails in \<open>decryptToken\<close> with a format error, and the
  handler of \<open>runDecrypt\<close> still computes its fingerprint and charges one attempt to
  it: the stored map changes and the message is "Wrong key. Attempts left: 4". (The map
  is left unchanged only when no fingerprint can be computed, \<open>runDecrypt_no_fingerprint\<close>;
  a failure with a fingerprint adds one, \<open>runDecrypt_failure\<close>; a success below the
  maximum stores 0, \<open>runDecrypt_success\<close>.)
\<close>

theorem unparseable_header_charged:
  assumes avail: "subtle_available h" and pw: "trim pw \<noteq> []"
  shows "snd (decryptToken h (js ''PASCO1.x.AAAA'') pw) = Inl HeaderUnparseable
       \<and> isFormatError HeaderUnparseable
       \<and> attempts (runDecrypt h Map.empty shown (js ''PASCO1.x.AAAA'') pw)
           = [concat (map byteHex (subtle_digest h [0, 0, 0])) \<mapsto> 1]
       \<and> message (runDecrypt h Map.empty shown (js ''PASCO1.x.AAAA'') pw) = WrongKeyAttemptsLeft 4"
proof -
  let ?t = "js ''PASCO1.x.AAAA''"
  have tr: "trim ?t = ?t" by code_simp
  have sw: "startsWith ?t (js ''PASCO1.'')" by code_simp
  have sp: "split dot ?t = [js ''PASCO1'', js ''x'', js ''AAAA'']" by code_simp
  have hx: "fromB64Url (js ''x'') = None" by code_simp
  have ct: "fromB64Url (js ''AAAA'') = Some [0, 0, 0]" by code_simp
  have d: "decryptToken h ?t pw = ([], Inl HeaderUnparseable)"
    using avail by (simp add: decryptToken_def tr sw sp hx unpackHeader_def)
  have f: "fingerprintFromToken h ?t = ([OpDigest], Inr (concat (map byteHex (subtle_digest h [0, 0, 0]))))"
    using avail by (simp add: fingerprintFromToken_def tr sw sp ct sha256Hex_def)
  show ?thesis
    using d by (simp add: runDecrypt_failure [OF pw d f] isFormatError_def used_def maxAttempts_def)
qed

theorem unparseable_header_charged_witness:
  "snd (decryptToken demoHost (js ''PASCO1.x.AAAA'') (js ''pw'')) = Inl HeaderUnparseable
   \<and> attempts (runDecrypt demoHost Map.empty ([], None) (js ''PASCO1.x.AAAA'') (js ''pw'')) = [js ''03'' \<mapsto> 1]
   \<and> message (runDecrypt demoHost Map.empty ([], None) (js ''PASCO1.x.AAAA'') (js ''pw'')) = WrongKeyAttemptsLeft 4"
proof -
  have fp: "concat (map byteHex (subtle_digest demoHost [0, 0, 0])) = js ''03''" by code_simp
  from unparseable_header_charged [OF demo_available demo_passwords(1), of "([], None)"] show ?thesis
    unfolding fp by simp
qed

subsection \<open>Format validation and fingerprint\<close>

text \<open>
  C5. On a host with WebCrypto, a string without the \<open>PASCO1.\<close> prefix, or not of three
  dot-separated segments, or whose header segment does not decode and parse, or whose
  header has another \<open>v\<close>, \<open>alg\<close> or \<open>kdf\<close>, makes \<open>decryptToken\<close> fail with a format
  error without any key derivation, decryption or digest.
\<close>

theorem format_rejection:
  assumes avail: "subtle_available h"
    and bad: "\<not> startsWith (trim t) (js ''PASCO1.'')
       \<or> length (split dot (trim t)) \<noteq> 3
       \<or> (\<exists>e. unpackHeader h (split dot (trim t) ! 1) = Inl e)
       \<or> (\<exists>header. unpackHeader h (split dot (trim t) ! 1) = Inr header
            \<and> (getProp header (js ''v'') \<noteq> Some (JNum (Finite 1))
               \<or> getProp header (js ''alg'') \<noteq> Some (JStr (js ''AES-256-GCM''))
               \<or> getProp header (js ''kdf'') \<noteq> Some (JStr (js ''PBKDF2-SHA256''))))"
  shows "\<exists>e. decryptToken h t pw = ([], Inl e) \<and> isFormatError e"
proof -
  have u: "\<And>s e. unpackHeader h s = Inl e \<Longrightarrow> e = HeaderUnparseable"
    by (auto simp: unpackHeader_def split: option.splits)
  have n: "getProp JNull (js ''v'') = None" by simp
  show ?thesis
    using avail bad
    by (auto simp: decryptToken_def Let_def isFormatError_def dest: u split: sum.splits)
qed

theorem format_rejection_witness:
  "(\<exists>e. decryptToken demoHost (js ''garbage'') (js ''pw'') = ([], Inl e) \<and> isFormatError e)
   \<and> (\<exists>e. decryptToken demoHost (js ''PASCO1.abc'') (js ''pw'') = ([], Inl e) \<and> isFormatError e)
   \<and> (\<exists>e. decryptToken demoHost (js ''PASCO1.x.AAAA'') (js ''pw'') = ([], Inl e) \<and> isFormatError e)
   \<and> (\<exists>e. decryptToken demoHost (js ''PASCO1.e29sZH0.AAAA'') (js ''pw'') = ([], Inl e)
          \<and> isFormatError e)"
proof -
  have prefix: "\<not> startsWith (trim (js ''garbage'')) (js ''PASCO1.'')" by code_simp
  have segments: "length (split dot (trim (js ''PASCO1.abc''))) \<noteq> 3" by code_simp
  have "unpackHeader demoHost (split dot (trim (js ''PASCO1.x.AAAA'')) ! 1) = Inl HeaderUnparseable"
    by code_simp
  then have unparseable:
    "\<exists>e. unpackHeader demoHost (split dot (trim (js ''PASCO1.x.AAAA'')) ! 1) = Inl e" ..
  have "unpackHeader demoHost (split dot (trim (js ''PASCO1.e29sZH0.AAAA'')) ! 1)
          = Inr (JObj [(js ''v'', JNum (Finite 2))])"
    and "getProp (JObj [(js ''v'', JNum (Finite 2))]) (js ''v'') \<noteq> Some (JNum (Finite 1))"
    by code_simp+
  then have version:
    "\<exists>header. unpackHeader demoHost (split dot (trim (js ''PASCO1.e29sZH0.AAAA'')) ! 1) = Inr header
       \<and> (getProp header (js ''v'') \<noteq> Some (JNum (Finite 1))
          \<or> getProp header (js ''alg'') \<noteq> Some (JStr (js ''AES-256-GCM''))
          \<or> getProp header (js ''kdf'') \<noteq> Some (JStr (js ''PBKDF2-SHA256'')))"
    by blast
  show ?thesis
    using format_rejection [OF demo_available disjI1 [OF prefix]]
      format_rejection [OF demo_available disjI2 [OF disjI1 [OF segments]]]
      format_rejection [OF demo_available disjI2 [OF disjI2 [OF disjI1 [OF unparseable]]]]
      format_rejection [OF demo_available disjI2 [OF disjI2 [OF disjI2 [OF version]]]]
    by blast
qed

text \<open>
  C6. Whenever \<open>decryptToken\<close> returns a result, for whatever password, its fingerprint
  is the hexadecimal digest of the decoded third segment and equals what
  \<open>fingerprintFromToken\<close> returns for the same token without a password.
\<close>

theorem fingerprint_without_password:
  assumes "decryptToken h t pw = (ops, Inr res)"
  shows "\<exists>ctBytes. fromB64Url (split dot (trim t) ! 2) = Some ctBytes
       \<and> resultFingerprint res = concat (map byteHex (subtle_digest h ctBytes))
       \<and> snd (fingerprintFromToken h t) = Inr (resultFingerprint res)"
  using assms
  by (auto simp: decryptToken_def fingerprintFromToken_def Let_def sha256Hex_def deriveKey_def
      split: if_splits sum.splits option.splits prod.splits)

theorem fingerprint_without_password_witness:
  "snd (fingerprintFromToken demoHost demoToken) = Inr (js ''04'')"
  using fingerprint_without_password [OF demo_decryptToken] by auto

text \<open>
  C9. Code units that \<open>trim\<close> strips, added before and after a string, change neither the
  result of \<open>decryptToken\<close> nor that of \<open>fingerprintFromToken\<close>.
\<close>

theorem surrounding_whitespace_ignored:
  assumes "\<forall>c\<in>set ws1. isWhiteSpace c" and "\<forall>c\<in>set ws2. isWhiteSpace c"
  shows "decryptToken h (ws1 @ t @ ws2) pw = decryptToken h t pw
       \<and> fingerprintFromToken h (ws1 @ t @ ws2) = fingerprintFromToken h t"
  using trim_surrounding [OF assms, of t]
  by (simp add: decryptToken_def fingerprintFromToken_def)

theorem surrounding_whitespace_ignored_witness:
  "decryptToken demoHost ([0x20, 0x9] @ demoToken @ [0xA]) (js ''pw'')
     = decryptToken demoHost demoToken (js ''pw'')
   \<and> fingerprintFromToken demoHost ([0x20, 0x9] @ demoToken @ [0xA])
     = fingerprintFromToken demoHost demoToken"
proof -
  have a: "\<forall>c\<in>set [0x20, 0x9]. isWhiteSpace c" by (simp add: isWhiteSpace_def)
  have b: "\<forall>c\<in>set [0xA]. isWhiteSpace c" by (simp add: isWhiteSpace_def)
  from surrounding_whitespace_ignored [OF a b] show ?thesis .
qed

text \<open>
  C10. The header's \<open>kind\<close> is not validated: a token that passes the format checks and
  authenticates, with a header whose \<open>kind\<close> is anything but the string \<open>text\<close> (or is
  absent), yields a file result carrying the decrypted bytes.
\<close>

theorem kind_not_validated:
  assumes avail: "subtle_available h"
    and prefix: "startsWith (trim t) (js ''PASCO1.'')"
    and parts: "split dot (trim t) = [p0, p1, p2]"
    and header: "unpackHeader h p1 = Inr header"
    and v: "getProp header (js ''v'') = Some (JNum (Finite 1))"
    and alg: "getProp header (js ''alg'') = Some (JStr (js ''AES-256-GCM''))"
    and kdf: "getProp header (js ''kdf'') = Some (JStr (js ''PBKDF2-SHA256''))"
    and salt: "fromB64UrlValue (getProp header (js ''salt'')) = Some salt"
    and iv: "fromB64UrlValue (getProp header (js ''iv'')) = Some iv"
    and ct: "fromB64Url p2 = Some ctBytes"
    and key: "subtle_deriveKey h (textEncoderEncode pw) salt (getProp header (js ''iter'')) = Some key"
    and auth: "subtle_decrypt h key iv ctBytes = Some ptBuf"
    and kind: "getProp header (js ''kind'') \<noteq> Some (JStr (js ''text''))"
  shows "snd (decryptToken h t pw) =
           Inr (FileResult header ptBuf (concat (map byteHex (subtle_digest h ctBytes))))"
proof -
  from v have "header \<noteq> JNull" by auto
  then show ?thesis
    using assms
    by (simp add: decryptToken_def Let_def deriveKey_def sha256Hex_def)
qed

theorem kind_not_validated_witness:
  "snd (decryptToken demoHost demoBareToken (js ''pw'')) =
     Inr (FileResult demoBareHeader [0x68, 0x69] (js ''04''))"
proof -
  note avail = demo_available
  have prefix: "startsWith (trim demoBareToken) (js ''PASCO1.'')" by code_simp
  have parts: "split dot (trim demoBareToken) = [js ''PASCO1'', js ''e2JhcmV9'', js ''cHdoaQ'']"
    by code_simp
  have header: "unpackHeader demoHost (js ''e2JhcmV9'') = Inr demoBareHeader" by code_simp
  have v: "getProp demoBareHeader (js ''v'') = Some (JNum (Finite 1))" by code_simp
  have alg: "getProp demoBareHeader (js ''alg'') = Some (JStr (js ''AES-256-GCM''))" by code_simp
  have kdf: "getProp demoBareHeader (js ''kdf'') = Some (JStr (js ''PBKDF2-SHA256''))" by code_simp
  have salt: "fromB64UrlValue (getProp demoBareHeader (js ''salt'')) = Some (replicate 16 0)"
    by code_simp
  have iv: "fromB64UrlValue (getProp demoBareHeader (js ''iv'')) = Some (replicate 12 0)"
    by code_simp
  have ct: "fromB64Url (js ''cHdoaQ'') = Some [0x70, 0x77, 0x68, 0x69]" by code_simp
  have key: "subtle_deriveKey demoHost (textEncoderEncode (js ''pw'')) (replicate 16 0)
      (getProp demoBareHeader (js ''iter'')) = Some [0x70, 0x77]" by code_simp
  have auth: "subtle_decrypt demoHost [0x70, 0x77] (replicate 12 0) [0x70, 0x77, 0x68, 0x69]
      = Some [0x68, 0x69]" by code_simp
  have kind: "getProp demoBareHeader (js ''kind'') \<noteq> Some (JStr (js ''text''))" by code_simp
  have fp: "concat (map byteHex (subtle_digest demoHost [0x70, 0x77, 0x68, 0x69])) = js ''04''"
    by code_simp
  from kind_not_validated [OF avail prefix parts header v alg kdf salt iv ct key auth kind]
  show ?thesis unfolding fp .
qed

subsection \<open>Encryption\<close>

text \<open>
  C7 (as amended). For a requested iteration count that is not \<open>NaN\<close> (220000 for
  \<open>encryptText\<close> and 260000 for \<open>encryptFile\<close> when omitted): when the function returns,
  the \<open>iter\<close> of the header is max(50000, min(600000, requested)), between 50000 and
  600000, and the key that encrypted the payload of the token is the one PBKDF2 derived
  from the password and the salt with the integer part of that value, also between
  50000 and 600000. A request of \<open>NaN\<close> is not clamped: the key derivation rejects it and
  no token is produced.
\<close>

theorem iterations_clamped:
  "(encryptText h rnd now txt opts = (ops, Inr r) \<longrightarrow>
      (\<exists>q key ctBytes.
          (case opt_iterations opts of
             None \<Rightarrow> q = 220000
           | Some (Finite x) \<Rightarrow> q = max 50000 (min 600000 x)
           | Some PosInfinity \<Rightarrow> q = 600000
           | Some NegInfinity \<Rightarrow> q = 50000
           | Some NaN \<Rightarrow> False)
        \<and> 50000 \<le> q \<and> q \<le> 600000
        \<and> getProp (enc_header r) (js ''iter'') = Some (JNum (Finite q))
        \<and> ops = [OpDeriveKey (Some (JNum (Finite q))), OpEncrypt, OpDigest]
        \<and> subtle_pbkdf2 h (textEncoderEncode (opt_password opts)) (fst (getRandomValues rnd 16)) \<lfloor>q\<rfloor>
            = Some key
        \<and> 50000 \<le> \<lfloor>q\<rfloor> \<and> \<lfloor>q\<rfloor> \<le> 600000
        \<and> subtle_encrypt h key (fst (getRandomValues (snd (getRandomValues rnd 16)) 12)) (utf8Encode txt)
            = Some ctBytes
        \<and> enc_token r = js ''PASCO1.'' @ packHeader h (enc_header r) @ js ''.'' @ toB64Url ctBytes))
 \<and> (subtle_available h \<and> opt_iterations opts = Some NaN \<longrightarrow>
      encryptText h rnd now txt opts = ([OpDeriveKey (Some (JNum NaN))], Inl KeyDerivationRejected))
 \<and> (encryptFile h rnd now file opts = (ops', Inr r') \<longrightarrow>
      (\<exists>q key ctBytes.
          (case opt_iterations opts of
             None \<Rightarrow> q = 260000
           | Some (Finite x) \<Rightarrow> q = max 50000 (min 600000 x)
           | Some PosInfinity \<Rightarrow> q = 600000
           | Some NegInfinity \<Rightarrow> q = 50000
           | Some NaN \<Rightarrow> False)
        \<and> 50000 \<le> q \<and> q \<le> 600000
        \<and> getProp (enc_header r') (js ''iter'') = Some (JNum (Finite q))
        \<and> ops' = [OpDeriveKey (Some (JNum (Finite q))), OpEncrypt, OpDigest]
        \<and> subtle_pbkdf2 h (textEncoderEncode (opt_password opts)) (fst (getRandomValues rnd 16)) \<lfloor>q\<rfloor>
            = Some key
        \<and> 50000 \<le> \<lfloor>q\<rfloor> \<and> \<lfloor>q\<rfloor> \<le> 600000
        \<and> subtle_encrypt h key (fst (getRandomValues (snd (getRandomValues rnd 16)) 12)) (file_bytes file)
            = Some ctBytes
        \<and> enc_token r' = js ''PASCO1.'' @ packHeader h (enc_header r') @ js ''.'' @ toB64Url ctBytes))
 \<and> (subtle_available h \<and> opt_iterations opts = Some NaN \<longrightarrow>
      encryptFile h rnd now file opts = ([OpDeriveKey (Some (JNum NaN))], Inl KeyDerivationRejected))"
proof (intro conjI impI)
  let ?c = "mathMax (Finite 50000) (mathMin (Finite 600000)
      (case opt_iterations opts of None \<Rightarrow> Finite 220000 | Some n \<Rightarrow> n))"
  let ?salt = "fst (getRandomValues rnd 16)"
  let ?iv = "fst (getRandomValues (snd (getRandomValues rnd 16)) 12)"
  assume "encryptText h rnd now txt opts = (ops, Inr r)"
  from encryptText_Inr [OF this] obtain key ctBytes where
    key: "subtle_deriveKey h (textEncoderEncode (opt_password opts)) ?salt (Some (JNum ?c)) = Some key"
    and ct: "subtle_encrypt h key ?iv (utf8Encode txt) = Some ctBytes"
    and ops: "ops = [OpDeriveKey (Some (JNum ?c)), OpEncrypt, OpDigest]"
    and it: "getProp (enc_header r) (js ''iter'') = Some (JNum ?c)"
    and tok: "enc_token r = js ''PASCO1.'' @ packHeader h (enc_header r) @ js ''.'' @ toB64Url ctBytes"
    by (auto simp: header_keys header_keys [symmetric])
  have "?c \<noteq> NaN" using key by (auto simp: subtle_deriveKey_NaN)
  then obtain q where c: "?c = Finite q"
    and q: "(case opt_iterations opts of
             None \<Rightarrow> q = 220000
           | Some (Finite x) \<Rightarrow> q = max 50000 (min 600000 x)
           | Some PosInfinity \<Rightarrow> q = 600000
           | Some NegInfinity \<Rightarrow> q = 50000
           | Some NaN \<Rightarrow> False)"
    and range: "50000 \<le> q" "q \<le> 600000"
    unfolding clamp_cases by (auto split: option.splits number.splits)
  note d = subtle_deriveKey_Finite [OF range]
  from key have "subtle_pbkdf2 h (textEncoderEncode (opt_password opts)) ?salt \<lfloor>q\<rfloor> = Some key"
    unfolding c d(1) .
  with q range ct ops it tok d(2,3) c
  show "\<exists>q key ctBytes.
          (case opt_iterations opts of
             None \<Rightarrow> q = 220000
           | Some (Finite x) \<Rightarrow> q = max 50000 (min 600000 x)
           | Some PosInfinity \<Rightarrow> q = 600000
           | Some NegInfinity \<Rightarrow> q = 50000
           | Some NaN \<Rightarrow> False)
        \<and> 50000 \<le> q \<and> q \<le> 600000
        \<and> getProp (enc_header r) (js ''iter'') = Some (JNum (Finite q))
        \<and> ops = [OpDeriveKey (Some (JNum (Finite q))), OpEncrypt, OpDigest]
        \<and> subtle_pbkdf2 h (textEncoderEncode (opt_password opts)) ?salt \<lfloor>q\<rfloor> = Some key
        \<and> 50000 \<le> \<lfloor>q\<rfloor> \<and> \<lfloor>q\<rfloor> \<le> 600000
        \<and> subtle_encrypt h key ?iv (utf8Encode txt) = Some ctBytes
        \<and> enc_token r = js ''PASCO1.'' @ packHeader h (enc_header r) @ js ''.'' @ toB64Url ctBytes"
    by (intro exI [of _ q] exI [of _ key] exI [of _ ctBytes]) (simp only: simp_thms)
next
  assume "subtle_available h \<and> opt_iterations opts = Some NaN"
  then show "encryptText h rnd now txt opts = ([OpDeriveKey (Some (JNum NaN))], Inl KeyDerivationRejected)"
    by (simp add: encryptText_def Let_def split_beta deriveKey_def clamp_cases subtle_deriveKey_NaN)
next
  let ?c = "mathMax (Finite 50000) (mathMin (Finite 600000)
      (case opt_iterations opts of None \<Rightarrow> Finite 260000 | Some n \<Rightarrow> n))"
  let ?salt = "fst (getRandomValues rnd 16)"
  let ?iv = "fst (getRandomValues (snd (getRandomValues rnd 16)) 12)"
  assume "encryptFile h rnd now file opts = (ops', Inr r')"
  from encryptFile_Inr [OF this] obtain key ctBytes where
    key: "subtle_deriveKey h (textEncoderEncode (opt_password opts)) ?salt (Some (JNum ?c)) = Some key"
    and ct: "subtle_encrypt h key ?iv (file_bytes file) = Some ctBytes"
    and ops: "ops' = [OpDeriveKey (Some (JNum ?c)), OpEncrypt, OpDigest]"
    and it: "getProp (enc_header r') (js ''iter'') = Some (JNum ?c)"
    and tok: "enc_token r' = js ''PASCO1.'' @ packHeader h (enc_header r') @ js ''.'' @ toB64Url ctBytes"
    by (auto simp: header_keys header_keys [symmetric])
  have "?c \<noteq> NaN" using key by (auto simp: subtle_deriveKey_NaN)
  then obtain q where c: "?c = Finite q"
    and q: "(case opt_iterations opts of
             None \<Rightarrow> q = 260000
           | Some (Finite x) \<Rightarrow> q = max 50000 (min 600000 x)
           | Some PosInfinity \<Rightarrow> q = 600000
           | Some NegInfinity \<Rightarrow> q = 50000
           | Some NaN \<Rightarrow> False)"
    and range: "50000 \<le> q" "q \<le> 600000"
    unfolding clamp_cases by (auto split: option.splits number.splits)
  note d = subtle_deriveKey_Finite [OF range]
  from key have "subtle_pbkdf2 h (textEncoderEncode (opt_password opts)) ?salt \<lfloor>q\<rfloor> = Some key"
    unfolding c d(1) .
  with q range ct ops it tok d(2,3) c
  show "\<exists>q key ctBytes.
          (case opt_iterations opts of
             None \<Rightarrow> q = 260000
           | Some (Finite x) \<Rightarrow> q = max 50000 (min 600000 x)
           | Some PosInfinity \<Rightarrow> q = 600000
           | Some NegInfinity \<Rightarrow> q = 50000
           | Some NaN \<Rightarrow> False)
        \<and> 50000 \<le> q \<and> q \<le> 600000
        \<and> getProp (enc_header r') (js ''iter'') = Some (JNum (Finite q))
        \<and> ops' = [OpDeriveKey (Some (JNum (Finite q))), OpEncrypt, OpDigest]
        \<and> subtle_pbkdf2 h (textEncoderEncode (opt_password opts)) ?salt \<lfloor>q\<rfloor> = Some key
        \<and> 50000 \<le> \<lfloor>q\<rfloor> \<and> \<lfloor>q\<rfloor> \<le> 600000
        \<and> subtle_encrypt h key ?iv (file_bytes file) = Some ctBytes
        \<and> enc_token r' = js ''PASCO1.'' @ packHeader h (enc_header r') @ js ''.'' @ toB64Url ctBytes"
    by (intro exI [of _ q] exI [of _ key] exI [of _ ctBytes]) (simp only: simp_thms)
next
  assume "subtle_available h \<and> opt_iterations opts = Some NaN"
  then show "encryptFile h rnd now file opts = ([OpDeriveKey (Some (JNum NaN))], Inl KeyDerivationRejected)"
    by (simp add: encryptFile_def Let_def split_beta deriveKey_def clamp_cases subtle_deriveKey_NaN)
qed

theorem iterations_clamped_witness:
  "(\<exists>key ctBytes.
       subtle_pbkdf2 demoHost (textEncoderEncode (js ''pw'')) (fst (getRandomValues demoRandom 16)) 220000
         = Some key
     \<and> subtle_encrypt demoHost key (fst (getRandomValues (snd (getRandomValues demoRandom 16)) 12))
         (utf8Encode (js ''hi'')) = Some ctBytes
     \<and> demoToken = js ''PASCO1.'' @ packHeader demoHost demoTextHeader @ js ''.'' @ toB64Url ctBytes)
   \<and> getProp demoTextHeader (js ''iter'') = Some (JNum (Finite 220000))
   \<and> (\<exists>key ctBytes.
       subtle_pbkdf2 demoHost (textEncoderEncode (js ''pw'')) (fst (getRandomValues demoRandom 16)) 260000
         = Some key
     \<and> subtle_encrypt demoHost key (fst (getRandomValues (snd (getRandomValues demoRandom 16)) 12))
         [1, 2, 3] = Some ctBytes
     \<and> demoFileToken = js ''PASCO1.'' @ packHeader demoHost demoFileHeader @ js ''.'' @ toB64Url ctBytes)
   \<and> getProp demoFileHeader (js ''iter'') = Some (JNum (Finite 260000))
   \<and> (\<exists>key ctBytes.
       subtle_pbkdf2 demoHost (textEncoderEncode (js ''pw'')) (fst (getRandomValues demoRandom 16)) 100000
         = Some key
     \<and> subtle_encrypt demoHost key (fst (getRandomValues (snd (getRandomValues demoRandom 16)) 12))
         (utf8Encode (js ''hi'')) = Some ctBytes
     \<and> demoHalfToken = js ''PASCO1.'' @ packHeader demoHost demoHalfHeader @ js ''.'' @ toB64Url ctBytes)
   \<and> getProp demoHalfHeader (js ''iter'') = Some (JNum (Finite (200001 / 2)))
   \<and> encryptText demoHost demoRandom demoNow (js ''hi'')
         \<lparr>opt_password = js ''pw'', opt_note = None, opt_iterations = Some NaN\<rparr>
       = ([OpDeriveKey (Some (JNum NaN))], Inl KeyDerivationRejected)
   \<and> encryptFile demoHost demoRandom demoNow demoFile
         \<lparr>opt_password = js ''pw'', opt_note = None, opt_iterations = Some NaN\<rparr>
       = ([OpDeriveKey (Some (JNum NaN))], Inl KeyDerivationRejected)"
proof -
  have f: "\<lfloor>200001 / 2 :: rat\<rfloor> = 100000" by (rule floor_unique) simp_all
  from iterations_clamped [of demoHost demoRandom demoNow "js ''hi''" demoOptions
      "[OpDeriveKey (Some (JNum (Finite 220000))), OpEncrypt, OpDigest]"
      "\<lparr>enc_token = demoToken, enc_header = demoTextHeader, enc_fingerprint = js ''04''\<rparr>"
      demoFile "[OpDeriveKey (Some (JNum (Finite 260000))), OpEncrypt, OpDigest]"
      "\<lparr>enc_token = demoFileToken, enc_header = demoFileHeader, enc_fingerprint = js ''05''\<rparr>"]
  have a: "(\<exists>key ctBytes.
       subtle_pbkdf2 demoHost (textEncoderEncode (js ''pw'')) (fst (getRandomValues demoRandom 16)) 220000
         = Some key
     \<and> subtle_encrypt demoHost key (fst (getRandomValues (snd (getRandomValues demoRandom 16)) 12))
         (utf8Encode (js ''hi'')) = Some ctBytes
     \<and> demoToken = js ''PASCO1.'' @ packHeader demoHost demoTextHeader @ js ''.'' @ toB64Url ctBytes)
   \<and> getProp demoTextHeader (js ''iter'') = Some (JNum (Finite 220000))
   \<and> (\<exists>key ctBytes.
       subtle_pbkdf2 demoHost (textEncoderEncode (js ''pw'')) (fst (getRandomValues demoRandom 16)) 260000
         = Some key
     \<and> subtle_encrypt demoHost key (fst (getRandomValues (snd (getRandomValues demoRandom 16)) 12))
         [1, 2, 3] = Some ctBytes
     \<and> demoFileToken = js ''PASCO1.'' @ packHeader demoHost demoFileHeader @ js ''.'' @ toB64Url ctBytes)
   \<and> getProp demoFileHeader (js ''iter'') = Some (JNum (Finite 260000))"
    unfolding demo_encryptText demo_encryptFile demo_inputs by simp
  from iterations_clamped [of demoHost demoRandom demoNow "js ''hi''"
      "\<lparr>opt_password = js ''pw'', opt_note = None, opt_iterations = Some (Finite (200001 / 2))\<rparr>"
      "[OpDeriveKey (Some (JNum (Finite (200001 / 2)))), OpEncrypt, OpDigest]"
      "\<lparr>enc_token = demoHalfToken, enc_header = demoHalfHeader, enc_fingerprint = js ''04''\<rparr>"]
  have b: "(\<exists>key ctBytes.
       subtle_pbkdf2 demoHost (textEncoderEncode (js ''pw'')) (fst (getRandomValues demoRandom 16)) 100000
         = Some key
     \<and> subtle_encrypt demoHost key (fst (getRandomValues (snd (getRandomValues demoRandom 16)) 12))
         (utf8Encode (js ''hi'')) = Some ctBytes
     \<and> demoHalfToken = js ''PASCO1.'' @ packHeader demoHost demoHalfHeader @ js ''.'' @ toB64Url ctBytes)
   \<and> getProp demoHalfHeader (js ''iter'') = Some (JNum (Finite (200001 / 2)))"
    unfolding demo_encryptHalf by (simp add: f del: eq_divide_eq_numeral1)
  from iterations_clamped [of demoHost demoRandom demoNow "js ''hi''"
      "\<lparr>opt_password = js ''pw'', opt_note = None, opt_iterations = Some NaN\<rparr>" _ _ demoFile]
  have c: "encryptText demoHost demoRandom demoNow (js ''hi'')
         \<lparr>opt_password = js ''pw'', opt_note = None, opt_iterations = Some NaN\<rparr>
       = ([OpDeriveKey (Some (JNum NaN))], Inl KeyDerivationRejected)
   \<and> encryptFile demoHost demoRandom demoNow demoFile
         \<lparr>opt_password = js ''pw'', opt_note = None, opt_iterations = Some NaN\<rparr>
       = ([OpDeriveKey (Some (JNum NaN))], Inl KeyDerivationRejected)"
    by (simp add: demo_available)
  from a b c show ?thesis by (simp only: simp_thms)
qed

text \<open>
  C7 as stated fails for a request that is not an integer: for 100000.5 the header
  records 100000.5 while PBKDF2 runs 100000 iterations, the integer part. And a request
  of \<open>NaN\<close> stays \<open>NaN\<close> under \<open>Math.min\<close> and \<open>Math.max\<close>, the key derivation rejects it and
  there is no count between 50000 and 600000.
\<close>

theorem iterations_fraction_counterexample:
  "encryptText demoHost demoRandom demoNow (js ''hi'')
     \<lparr>opt_password = js ''pw'', opt_note = None, opt_iterations = Some (Finite (200001 / 2))\<rparr> =
     ([OpDeriveKey (Some (JNum (Finite (200001 / 2)))), OpEncrypt, OpDigest],
      Inr \<lparr>enc_token = demoHalfToken, enc_header = demoHalfHeader, enc_fingerprint = js ''04''\<rparr>)
   \<and> getProp demoHalfHeader (js ''iter'') = Some (JNum (Finite (200001 / 2)))
   \<and> enforceRangeUnsignedLong (Finite (200001 / 2)) = Some 100000
   \<and> subtle_deriveKey demoHost (textEncoderEncode (js ''pw'')) (replicate 16 0)
         (Some (JNum (Finite (200001 / 2))))
       = subtle_pbkdf2 demoHost (textEncoderEncode (js ''pw'')) (replicate 16 0) 100000
   \<and> Finite (200001 / 2) \<noteq> Finite 100000
   \<and> mathMax (Finite 50000) (mathMin (Finite 600000) NaN) = NaN
   \<and> snd (encryptText demoHost demoRandom demoNow (js ''hi'')
         \<lparr>opt_password = js ''pw'', opt_note = None, opt_iterations = Some NaN\<rparr>)
       = Inl KeyDerivationRejected"
  by code_simp

text \<open>
  C4 (as amended). On a host whose AES-GCM decrypts what it encrypted under the same key
  and IV, and whose \<open>JSON.parse\<close> reads back the header that \<open>JSON.stringify\<close> wrote:
  decrypting the token of \<open>encryptFile\<close> with the same password returns the file's bytes
  exactly; decrypting the token of \<open>encryptText\<close> returns the decoding of the exact UTF-8
  bytes that were encrypted, which is the original text whenever every surrogate of the
  text is paired and the text does not begin with U+FEFF.
\<close>

theorem roundtrip:
  assumes aead: "\<And>k iv pt ct. subtle_encrypt h k iv pt = Some ct \<Longrightarrow> subtle_decrypt h k iv ct = Some pt"
  shows "(encryptText h rnd now txt opts = (ops, Inr r)
          \<and> json_parse h (utf8Decode (utf8Encode (json_stringify h (enc_header r)))) = Some (enc_header r)
        \<longrightarrow> snd (decryptToken h (enc_token r) (opt_password opts))
              = Inr (TextResult (enc_header r) (utf8Decode (utf8Encode txt)) (enc_fingerprint r))
            \<and> (wellFormedUtf16 txt \<and> \<not> startsWithBOM txt \<longrightarrow> utf8Decode (utf8Encode txt) = txt))
       \<and> (encryptFile h rnd now file opts = (ops', Inr r')
          \<and> json_parse h (utf8Decode (utf8Encode (json_stringify h (enc_header r')))) = Some (enc_header r')
        \<longrightarrow> snd (decryptToken h (enc_token r') (opt_password opts))
              = Inr (FileResult (enc_header r') (file_bytes file) (enc_fingerprint r')))"
proof (intro conjI impI)
  assume "encryptText h rnd now txt opts = (ops, Inr r)
          \<and> json_parse h (utf8Decode (utf8Encode (json_stringify h (enc_header r)))) = Some (enc_header r)"
  then show "snd (decryptToken h (enc_token r) (opt_password opts))
              = Inr (TextResult (enc_header r) (utf8Decode (utf8Encode txt)) (enc_fingerprint r))"
    using encryptText_roundtrip [OF _ _ aead] by blast
next
  assume "wellFormedUtf16 txt \<and> \<not> startsWithBOM txt"
  then show "utf8Decode (utf8Encode txt) = txt"
    by (simp add: utf8Encode_def utf8Decode_def text_roundtrip)
next
  assume "encryptFile h rnd now file opts = (ops', Inr r')
          \<and> json_parse h (utf8Decode (utf8Encode (json_stringify h (enc_header r')))) = Some (enc_header r')"
  then show "snd (decryptToken h (enc_token r') (opt_password opts))
              = Inr (FileResult (enc_header r') (file_bytes file) (enc_fingerprint r'))"
    using encryptFile_roundtrip(1) [OF _ _ aead] by blast
qed

theorem roundtrip_witness:
  "snd (decryptToken demoHost demoToken (js ''pw'')) = Inr (TextResult demoTextHeader (js ''hi'') (js ''04''))
   \<and> snd (decryptToken demoHost demoFileToken (js ''pw''))
       = Inr (FileResult demoFileHeader [1, 2, 3] (js ''05''))"
proof -
  have w: "wellFormedUtf16 (js ''hi'')" "\<not> startsWithBOM (js ''hi'')" by code_simp+
  from roundtrip [OF demo_aead, of demoRandom demoNow "js ''hi''" demoOptions
      "[OpDeriveKey (Some (JNum (Finite 220000))), OpEncrypt, OpDigest]"
      "\<lparr>enc_token = demoToken, enc_header = demoTextHeader, enc_fingerprint = js ''04''\<rparr>"
      demoFile "[OpDeriveKey (Some (JNum (Finite 260000))), OpEncrypt, OpDigest]"
      "\<lparr>enc_token = demoFileToken, enc_header = demoFileHeader, enc_fingerprint = js ''05''\<rparr>"]
  show ?thesis
    using demo_encryptText demo_encryptFile demo_json w demo_inputs by simp
qed

text \<open>
  C4 as stated fails for the text kind: \<open>TextDecoder\<close> drops a leading byte order mark,
  so the text U+FEFF "hi" comes back as "hi".
\<close>

theorem roundtrip_byte_order_mark_counterexample:
  "snd (encryptText demoHost demoRandom demoNow [0xFEFF, 0x68, 0x69] demoOptions)
     = Inr \<lparr>enc_token = demoMarkedToken, enc_header = demoTextHeader, enc_fingerprint = js ''07''\<rparr>
   \<and> opt_password demoOptions = js ''pw''
   \<and> snd (decryptToken demoHost demoMarkedToken (js ''pw''))
     = Inr (TextResult demoTextHeader [0x68, 0x69] (js ''07''))
   \<and> utf8Encode [0x68, 0x69] \<noteq> utf8Encode [0xFEFF, 0x68, 0x69]"
proof -
  have d: "utf8Decode (utf8Encode [0xFEFF, 0x68, 0x69]) = [0x68, 0x69]" by code_simp
  have n: "utf8Encode [0x68, 0x69] \<noteq> utf8Encode [0xFEFF, 0x68, 0x69]" by code_simp
  have j: "json_parse demoHost (utf8Decode (utf8Encode (json_stringify demoHost
      (enc_header \<lparr>enc_token = demoMarkedToken, enc_header = demoTextHeader,
                   enc_fingerprint = js ''07''\<rparr>))))
      = Some (enc_header \<lparr>enc_token = demoMarkedToken, enc_header = demoTextHeader,
                          enc_fingerprint = js ''07''\<rparr>)"
    by (simp add: demo_json)
  from encryptText_roundtrip [OF demo_encryptMarked j demo_aead] show ?thesis
    using n by (simp add: demo_encryptMarked demo_inputs d)
qed

text \<open>
  C8 (as amended). Under the same two conditions on the host, decrypting the token of
  \<open>encryptFile\<close> with the same password returns the file's bytes exactly, with a header
  whose \<open>filename\<close> is the file's name, whose \<open>size\<close> is the number of its bytes, and
  whose \<open>mime\<close> is the file's type, or \<open>application/octet-stream\<close> when that type is
  empty.
\<close>

theorem file_roundtrip:
  assumes enc: "encryptFile h rnd now file opts = (ops, Inr r)"
    and json: "json_parse h (utf8Decode (utf8Encode (json_stringify h (enc_header r))))
                 = Some (enc_header r)"
    and aead: "\<And>k iv pt ct. subtle_encrypt h k iv pt = Some ct \<Longrightarrow> subtle_decrypt h k iv ct = Some pt"
  shows "snd (decryptToken h (enc_token r) (opt_password opts))
           = Inr (FileResult (enc_header r) (file_bytes file) (enc_fingerprint r))
         \<and> getProp (enc_header r) (js ''filename'') = Some (JStr (file_name file))
         \<and> getProp (enc_header r) (js ''mime'') =
             Some (JStr (if file_type file = [] then js ''application/octet-stream'' else file_type file))
         \<and> getProp (enc_header r) (js ''size'') = Some (JNum (Finite (of_nat (length (file_bytes file)))))"
  using encryptFile_roundtrip [OF enc json aead] by blast

theorem file_roundtrip_witness:
  "snd (decryptToken demoHost demoFileToken (js ''pw''))
     = Inr (FileResult demoFileHeader [1, 2, 3] (js ''05''))
   \<and> getProp demoFileHeader (js ''filename'') = Some (JStr (js ''a.bin''))
   \<and> getProp demoFileHeader (js ''mime'') = Some (JStr (js ''application/octet-stream''))
   \<and> getProp demoFileHeader (js ''size'') = Some (JNum (Finite 3))"
proof -
  have j: "json_parse demoHost (utf8Decode (utf8Encode (json_stringify demoHost
        (enc_header \<lparr>enc_token = demoFileToken, enc_header = demoFileHeader, enc_fingerprint = js ''05''\<rparr>))))
        = Some (enc_header \<lparr>enc_token = demoFileToken, enc_header = demoFileHeader,
                             enc_fingerprint = js ''05''\<rparr>)"
    by (simp add: demo_json)
  from file_roundtrip [OF demo_encryptFile j demo_aead] show ?thesis
    by (simp add: demo_inputs)
qed

text \<open>
  C8 as stated fails for a file whose type is empty: the header does not keep the empty
  type, it records \<open>application/octet-stream\<close>.
\<close>

theorem file_mime_default_counterexample:
  "file_type demoFile = []
   \<and> snd (encryptFile demoHost demoRandom demoNow demoFile demoOptions)
     = Inr \<lparr>enc_token = demoFileToken, enc_header = demoFileHeader, enc_fingerprint = js ''05''\<rparr>
   \<and> snd (decryptToken demoHost demoFileToken (js ''pw''))
     = Inr (FileResult demoFileHeader [1, 2, 3] (js ''05''))
   \<and> getProp demoFileHeader (js ''mime'') = Some (JStr (js ''application/octet-stream''))"
proof -
  have j: "json_parse demoHost (utf8Decode (utf8Encode (json_stringify demoHost
        (enc_header \<lparr>enc_token = demoFileToken, enc_header = demoFileHeader, enc_fingerprint = js ''05''\<rparr>))))
        = Some (enc_header \<lparr>enc_token = demoFileToken, enc_header = demoFileHeader,
                             enc_fingerprint = js ''05''\<rparr>)"
    by (simp add: demo_json)
  from encryptFile_roundtrip [OF demo_encryptFile j demo_aead] show ?thesis
    by (simp add: demo_encryptFile demo_inputs)
qed

end
